theory Spec2Isabelle
  imports Complex_Main "HOL-Library.Sublist" "HOL-Library.AList"
begin

section \<open>Conventions of the embedding\<close>

text \<open>
  The Python sources compute with binary floating-point numbers. The embedding reads every
  \<^verbatim>\<open>float\<close> as a real number and every arithmetic operation as the exact one, so rounding
  error, infinities and NaN are outside the model, as are Python's recursion limit and
  memory. Python integers are \<^typ>\<open>int\<close>. Where a definition is evaluated at a concrete input
  to show what the code returns, the input is chosen so that floating-point rounding does
  not change the outcome.

  An exception is a value: a function that can raise returns \<open>py_error + 'a\<close>, with \<open>Inl\<close>
  for the exception. A loop or recursion that need not end is a partial function with an
  optional result, \<open>None\<close> standing for a call that does not return.
\<close>

datatype py_error = ZeroDivisionError | ValueError | TypeError | IndexError

text \<open>Python's \<^verbatim>\<open>a / b\<close> on numbers: raises on a zero divisor.\<close>

definition py_truediv :: "real \<Rightarrow> real \<Rightarrow> py_error + real" where
  "py_truediv a b = (if b = 0 then Inl ZeroDivisionError else Inr (a / b))"

text \<open>
  Python 3's built-in \<^verbatim>\<open>round(x)\<close> with one argument: the nearest integer, and on a tie
  the even one of the two neighbours.
\<close>

definition py_round :: "real \<Rightarrow> int" where
  "py_round x =
     (let f = \<lfloor>x\<rfloor>; d = x - of_int f
      in if d < 1 / 2 then f
         else if 1 / 2 < d then f + 1
         else if even f then f else f + 1)"

text \<open>Python's \<^verbatim>\<open>int(x)\<close> on a float: truncation towards zero.\<close>

definition py_int :: "real \<Rightarrow> int" where
  "py_int x = (if 0 \<le> x then \<lfloor>x\<rfloor> else \<lceil>x\<rceil>)"

section \<open>Calibration mapping (vr\_controller.py)\<close>

record AxisCalibration =
  min_val :: real
  max_val :: real
  inverted :: bool
  deadzone :: real
  sensitivity :: real

text \<open>\<^verbatim>\<open>AxisCalibration.map_value\<close>, statement by statement.\<close>

definition map_value :: "AxisCalibration \<Rightarrow> real \<Rightarrow> py_error + int" where
  "map_value c raw =
     (let range_val = max_val c - min_val c
      in if range_val = 0 then Inr 50
         else
           case py_truediv (raw - min_val c) range_val of
             Inl e \<Rightarrow> Inl e
           | Inr normalized0 \<Rightarrow>
               let normalized1 =
                     (if sensitivity c \<noteq> 1
                      then (normalized0 - 0.5) * sensitivity c + 0.5
                      else normalized0);
                   normalized2 = max 0 (min 1 normalized1);
                   normalized3 = (if inverted c then 1 - normalized2 else normalized2)
               in Inr (py_round (normalized3 * 100)))"

text \<open>
  The value before rounding, following the words of the specification: normalise, scale by
  the sensitivity around the centre 0.5, clamp to the unit interval, invert when configured,
  scale to 0..100.
\<close>

definition map_value_unrounded :: "AxisCalibration \<Rightarrow> real \<Rightarrow> real" where
  "map_value_unrounded c raw =
     (let n0 = (raw - min_val c) / (max_val c - min_val c);
          n1 = (n0 - 1 / 2) * sensitivity c + 1 / 2;
          n2 = max 0 (min 1 n1);
          n3 = (if inverted c then 1 - n2 else n2)
      in n3 * 100)"



section \<open>Filter stages (stabilization.py)\<close>

subsection \<open>OneEuroFilter\<close>







subsection \<open>HysteresisFilter\<close>

record HysteresisFilter =
  band :: real
  last_emitted :: "int option"
  direction :: int

text \<open>\<^verbatim>\<open>HysteresisFilter.filter(value)\<close>: the returned value and the updated filter object.\<close>

definition hysteresis_filter :: "HysteresisFilter \<Rightarrow> int \<Rightarrow> int \<times> HysteresisFilter" where
  "hysteresis_filter f v =
     (case last_emitted f of
        None \<Rightarrow> (v, f\<lparr>last_emitted := Some v\<rparr>)
      | Some e \<Rightarrow>
          let delta = v - e
          in if direction f = 0 then
               (if band f \<le> of_int \<bar>delta\<bar>
                then (v, f\<lparr>last_emitted := Some v,
                           direction := (if 0 < delta then 1 else - 1)\<rparr>)
                else (e, f))
             else if (0 < direction f \<and> 0 < delta) \<or> (direction f < 0 \<and> delta < 0) then
               (v, f\<lparr>last_emitted := Some v\<rparr>)
             else if band f * 2 \<le> of_int \<bar>delta\<bar> then
               (v, f\<lparr>last_emitted := Some v, direction := (if 0 < delta then 1 else - 1)\<rparr>)
             else (e, f))"

definition hysteresis_reset :: "HysteresisFilter \<Rightarrow> HysteresisFilter" where
  "hysteresis_reset f = f\<lparr>last_emitted := None, direction := 0\<rparr>"

text \<open>The filter object after a sequence of inputs, fed one call after the other.\<close>

fun hysteresis_feed :: "HysteresisFilter \<Rightarrow> int list \<Rightarrow> HysteresisFilter" where
  "hysteresis_feed f [] = f"
| "hysteresis_feed f (v # vs) = hysteresis_feed (snd (hysteresis_filter f v)) vs"

subsection \<open>StabilizationConfig and AxisStabilizer.set\_config\<close>

record StabilizationConfig =
  spike_rejection_enabled :: bool
  spike_threshold :: real
  one_euro_enabled :: bool
  one_euro_min_cutoff :: real
  one_euro_beta :: real
  slew_rate_enabled :: bool
  slew_max_rate :: real
  jerk_limiter_enabled :: bool
  jerk_max_jerk :: real
  deadzone_enabled :: bool
  deadzone_threshold :: real
  hysteresis_enabled :: bool
  hysteresis_band :: real

text \<open>
  Configuration objects are mutable and shared by reference, so they live in a store: the
  list of all allocated configuration objects, a reference being an index into it.
  Allocation appends to the list.
\<close>

type_synonym config_store = "StabilizationConfig list"

definition ROTATION_AXES :: "string set" where
  "ROTATION_AXES = {''pitch'', ''yaw'', ''roll''}"

text \<open>
  \<^verbatim>\<open>_adjust_config_for_axis(config, axis_name)\<close>: the store after the call and the returned
  reference. \<^verbatim>\<open>copy.copy\<close> allocates a new object holding the fields of \<open>config\<close>; the
  three assignments then write to the copy and read from \<open>config\<close>.
\<close>

definition adjust_config_for_axis :: "config_store \<Rightarrow> nat \<Rightarrow> string \<Rightarrow> config_store \<times> nat" where
  "adjust_config_for_axis h config axis_name =
     (if axis_name \<notin> ROTATION_AXES then (h, config)
      else
        let c = length h;
            h1 = h @ [h ! config];
            h2 = h1[c := (h1 ! c)\<lparr>spike_threshold := spike_threshold (h1 ! config) * 60\<rparr>];
            h3 = h2[c := (h2 ! c)\<lparr>slew_max_rate := slew_max_rate (h2 ! config) * 60\<rparr>];
            h4 = h3[c := (h3 ! c)\<lparr>jerk_max_jerk := jerk_max_jerk (h3 ! config) * 60\<rparr>]
        in (h4, c))"

text \<open>
  The part of an \<^verbatim>\<open>AxisStabilizer\<close> that \<^verbatim>\<open>set_config\<close> touches: the axis name, the two
  configuration references, and the parameter of each of the six filter objects.
\<close>

record AxisStabilizer =
  axis_name :: string
  config_ref :: nat
  effective_config_ref :: nat
  spike_dot_threshold :: real
  one_euro_dot_min_cutoff :: real
  one_euro_dot_beta :: real
  slew_dot_max_rate :: real
  jerk_dot_max_jerk :: real
  deadzone_dot_threshold :: real
  hysteresis_dot_band :: real

definition apply_config :: "config_store \<Rightarrow> AxisStabilizer \<Rightarrow> AxisStabilizer" where
  "apply_config h st =
     (let c = h ! effective_config_ref st
      in st\<lparr>spike_dot_threshold := spike_threshold c,
            one_euro_dot_min_cutoff := one_euro_min_cutoff c,
            one_euro_dot_beta := one_euro_beta c,
            slew_dot_max_rate := slew_max_rate c,
            jerk_dot_max_jerk := jerk_max_jerk c,
            deadzone_dot_threshold := deadzone_threshold c,
            hysteresis_dot_band := hysteresis_band c\<rparr>)"

definition set_config ::
  "config_store \<Rightarrow> AxisStabilizer \<Rightarrow> nat \<Rightarrow> config_store \<times> AxisStabilizer" where
  "set_config h st config =
     (let st1 = st\<lparr>config_ref := config\<rparr>;
          (h', eff) = adjust_config_for_axis h config (axis_name st1);
          st2 = st1\<lparr>effective_config_ref := eff\<rparr>
      in (h', apply_config h' st2))"

text \<open>
  The configuration the specification asks for on a rotation axis: the three raw-unit
  thresholds times 60, every other field as in the given configuration.
\<close>

definition scaled60 :: "StabilizationConfig \<Rightarrow> StabilizationConfig" where
  "scaled60 c = c\<lparr>spike_threshold := 60 * spike_threshold c,
                  slew_max_rate := 60 * slew_max_rate c,
                  jerk_max_jerk := 60 * jerk_max_jerk c\<rparr>"

text \<open>The preset \<^verbatim>\<open>STABILIZATION_PRESETS["medium"]\<close>.\<close>

definition preset_medium :: StabilizationConfig where
  "preset_medium =
     \<lparr>spike_rejection_enabled = True, spike_threshold = 1 / 2,
      one_euro_enabled = True, one_euro_min_cutoff = 3 / 2, one_euro_beta = 7 / 1000,
      slew_rate_enabled = True, slew_max_rate = 5,
      jerk_limiter_enabled = False, jerk_max_jerk = 20,
      deadzone_enabled = True, deadzone_threshold = 1,
      hysteresis_enabled = True, hysteresis_band = 3 / 2\<rparr>"

section \<open>Recording (funscript\_io.py, recorder.py)\<close>

text \<open>
  \<^verbatim>\<open>FunscriptAction\<close>. The field \<^verbatim>\<open>at\<close> is written \<open>at_ms\<close>, since \<open>at\<close> is a
  reserved word of the logic's syntax.
\<close>

record FunscriptAction =
  at_ms :: int
  pos :: int

text \<open>
  \<^verbatim>\<open>AXIS_DEFINITIONS.get(axis_name)\<close> followed by the choice of the controller axis: the
  table's entry for the six funscript axes, the axis name itself for any other name.
\<close>

definition controller_axis_of :: "string \<Rightarrow> string" where
  "controller_axis_of axis =
     (if axis = ''stroke'' then ''y''
      else if axis = ''surge'' then ''z''
      else if axis = ''sway'' then ''x''
      else if axis = ''twist'' then ''yaw''
      else if axis = ''roll'' then ''roll''
      else if axis = ''pitch'' then ''pitch''
      else axis)"

text \<open>
  The fields of a \<^verbatim>\<open>Recorder\<close> that \<^verbatim>\<open>add_sample\<close> reads or writes. \<open>active_axes\<close> is a
  Python set: its elements in iteration order, without repetition.
\<close>

record Recorder =
  is_recording :: bool
  active_axes :: "string list"
  buffer :: "string \<rightharpoonup> FunscriptAction list"
  min_interval_ms :: int
  last_sample_time :: "string \<rightharpoonup> int"

text \<open>One iteration of the loop of \<^verbatim>\<open>add_sample\<close>, for the axis \<open>name\<close>.\<close>

definition add_sample_axis ::
  "int \<Rightarrow> (string \<rightharpoonup> int) \<Rightarrow> string \<Rightarrow> Recorder \<Rightarrow> Recorder" where
  "add_sample_axis video_time_ms mapped_positions name r =
     (let controller_axis = controller_axis_of name
      in case mapped_positions controller_axis of
           None \<Rightarrow> r
         | Some p \<Rightarrow>
             let last_time = (case last_sample_time r name of None \<Rightarrow> - 1 | Some l \<Rightarrow> l)
             in if 0 \<le> last_time \<and> video_time_ms - last_time < min_interval_ms r then r
                else
                  let action = \<lparr>at_ms = video_time_ms, pos = max 0 (min 100 p)\<rparr>;
                      b = (case buffer r name of None \<Rightarrow> [] | Some acts \<Rightarrow> acts)
                  in r\<lparr>buffer := (buffer r)(name \<mapsto> b @ [action]),
                       last_sample_time := (last_sample_time r)(name \<mapsto> video_time_ms)\<rparr>)"

definition add_sample :: "Recorder \<Rightarrow> int \<Rightarrow> (string \<rightharpoonup> int) \<Rightarrow> Recorder" where
  "add_sample r video_time_ms mapped_positions =
     (if \<not> is_recording r then r
      else fold (add_sample_axis video_time_ms mapped_positions) (active_axes r) r)"

text \<open>\<^verbatim>\<open>start_recording\<close>: empty buffers and the sentinel -1 for every active axis.\<close>

definition start_recording :: "Recorder \<Rightarrow> Recorder" where
  "start_recording r =
     r\<lparr>is_recording := True,
       buffer := map_of (map (\<lambda>a. (a, [])) (active_axes r)),
       last_sample_time := map_of (map (\<lambda>a. (a, - 1)) (active_axes r))\<rparr>"

text \<open>What \<^verbatim>\<open>add_sample\<close> reads and writes for one axis.\<close>

definition axis_view :: "Recorder \<Rightarrow> string \<Rightarrow> FunscriptAction list option \<times> int option \<times> int" where
  "axis_view r a = (buffer r a, last_sample_time r a, min_interval_ms r)"

text \<open>
  The effect of one sample on the buffer and on the time of the last accepted sample of
  one active axis, in the words of the claim: nothing changes when the controller axis has
  no mapped position, or when the last accepted sample has a time that is not negative and
  the new sample comes less than \<open>min_interval_ms\<close> after it; otherwise the action with the
  position clamped to 0..100 is appended and its time recorded.
\<close>

definition sample_effect ::
  "Recorder \<Rightarrow> int \<Rightarrow> (string \<rightharpoonup> int) \<Rightarrow> string
     \<Rightarrow> FunscriptAction list option \<times> int option" where
  "sample_effect r t mp a =
     (case mp (controller_axis_of a) of
        None \<Rightarrow> (buffer r a, last_sample_time r a)
      | Some p \<Rightarrow>
          (case last_sample_time r a of
             Some l \<Rightarrow>
               if 0 \<le> l \<and> t - l < min_interval_ms r then (buffer r a, last_sample_time r a)
               else (Some ((case buffer r a of None \<Rightarrow> [] | Some b \<Rightarrow> b)
                             @ [\<lparr>at_ms = t,
                                 pos = (if p < 0 then 0 else if 100 < p then 100 else p)\<rparr>]),
                     Some t)
           | None \<Rightarrow>
               (Some ((case buffer r a of None \<Rightarrow> [] | Some b \<Rightarrow> b)
                        @ [\<lparr>at_ms = t,
                            pos = (if p < 0 then 0 else if 100 < p then 100 else p)\<rparr>]),
                Some t)))"

text \<open>A recorder with the default settings, right after \<^verbatim>\<open>start_recording\<close>.\<close>

definition recorder_started :: Recorder where
  "recorder_started =
     start_recording \<lparr>is_recording = False, active_axes = [''stroke''],
        buffer = Map.empty, min_interval_ms = 11, last_sample_time = Map.empty\<rparr>"

section \<open>Point reduction (recorder.py)\<close>

text \<open>
  \<^verbatim>\<open>Recorder._perpendicular_distance\<close> on points \<open>(at, pos)\<close>; \<^verbatim>\<open>** 0.5\<close> is the square root.
  The divisor \<open>t_range\<close> is at least 1.
\<close>

definition perpendicular_distance :: "int \<times> int \<Rightarrow> int \<times> int \<Rightarrow> int \<times> int \<Rightarrow> real" where
  "perpendicular_distance point line_start line_end =
     (let t_range = max 1 (fst line_end - fst line_start);
          p_range = 100;
          px = of_int (fst point - fst line_start) / of_int t_range * p_range;
          py = of_int (snd point);
          lx1 = 0;
          ly1 = of_int (snd line_start);
          lx2 = p_range;
          ly2 = of_int (snd line_end);
          dx = lx2 - lx1;
          dy = ly2 - ly1;
          denom = sqrt (dx * dx + dy * dy)
      in if denom = 0 then sqrt ((px - lx1)\<^sup>2 + (py - ly1)\<^sup>2)
         else \<bar>dy * px - dx * py + lx2 * ly1 - ly2 * lx1\<bar> / denom)"

text \<open>
  The loop of \<^verbatim>\<open>_rdp\<close> that looks for the point farthest from the chord: \<open>max_dist\<close> and
  \<open>max_idx\<close> start at 0 and are replaced whenever a strictly larger distance is met.
\<close>

definition rdp_farthest :: "(int \<times> int) list \<Rightarrow> real \<times> nat" where
  "rdp_farthest points =
     fold (\<lambda>i (max_dist, max_idx).
             let dist = perpendicular_distance (points ! i) (hd points) (last points)
             in if max_dist < dist then (dist, i) else (max_dist, max_idx))
       [1..<length points - 1] (0, 0)"

text \<open>
  \<^verbatim>\<open>Recorder._rdp\<close>. The recursion need not end (with a negative \<open>epsilon\<close> and all points
  on the chord it calls itself on the whole list again), so the result is optional:
  \<open>None\<close> stands for a call that does not return.
\<close>

partial_function (option) rdp :: "(int \<times> int) list \<Rightarrow> real \<Rightarrow> (int \<times> int) list option" where
  "rdp points epsilon =
     (if length points \<le> 2 then Some points
      else
        let start = hd points;
            finish = last points;
            max_dist = fst (rdp_farthest points);
            max_idx = snd (rdp_farthest points)
        in if epsilon < max_dist then
             Option.bind (rdp (take (max_idx + 1) points) epsilon) (\<lambda>left.
             Option.bind (rdp (drop max_idx points) epsilon) (\<lambda>right.
               Some (butlast left @ right)))
           else Some [start, finish])"

text \<open>
  What the specification asks of a reduction \<open>ys\<close> of \<open>points\<close>: a subsequence that is not
  longer, with the same first and last point, and the input itself when that has at most
  two points. (A reduction of two or more points keeps at least two.)
\<close>

definition rdp_ok :: "(int \<times> int) list \<Rightarrow> (int \<times> int) list \<Rightarrow> bool" where
  "rdp_ok points ys \<longleftrightarrow>
     subseq ys points \<and> length ys \<le> length points
     \<and> (points \<noteq> [] \<longrightarrow> ys \<noteq> [] \<and> hd ys = hd points \<and> last ys = last points)
     \<and> (2 \<le> length points \<longrightarrow> 2 \<le> length ys)
     \<and> (length points \<le> 2 \<longrightarrow> ys = points)"

section \<open>Tempo estimation (beat\_detection.py)\<close>

subsection \<open>Inter-onset intervals\<close>

text \<open>
  The first loop of \<^verbatim>\<open>_estimate_tempo_from_ioi\<close>: the gaps between consecutive onsets that
  lie strictly between 150 and 2000 ms, in order.
\<close>

fun ioi_intervals :: "int list \<Rightarrow> int list" where
  "ioi_intervals (a # b # rest) =
     (let ioi = b - a
      in (if 150 < ioi \<and> ioi < 2000 then [ioi] else []) @ ioi_intervals (b # rest))"
| "ioi_intervals _ = []"

text \<open>
  \<^verbatim>\<open>numpy.median\<close> of a non-empty list of integers: the middle element of the sorted list,
  or the mean of the two middle elements.
\<close>

definition np_median :: "int list \<Rightarrow> real" where
  "np_median xs =
     (let s = sort xs; n = length s
      in if odd n then of_int (s ! (n div 2))
         else (of_int (s ! (n div 2 - 1)) + of_int (s ! (n div 2))) / 2)"

text \<open>\<^verbatim>\<open>while bpm > 200 and bpm / 2 >= 40: bpm /= 2\<close>\<close>

function halve_while :: "real \<Rightarrow> real" where
  "halve_while b = (if 200 < b \<and> 40 \<le> b / 2 then halve_while (b / 2) else b)"
  by pat_completeness auto
termination
proof (relation "measure (\<lambda>b. nat \<lceil>b\<rceil>)")
  show "wf (measure (\<lambda>b::real. nat \<lceil>b\<rceil>))" by simp
next
  fix b :: real
  assume "200 < b \<and> 40 \<le> b / 2"
  then have "b / 2 \<le> b - 100" by simp
  then have "\<lceil>b / 2\<rceil> \<le> \<lceil>b - 100\<rceil>" by (rule ceiling_mono)
  also have "\<lceil>b - 100\<rceil> = \<lceil>b\<rceil> - 100" using ceiling_diff_of_int [of b 100] by simp
  finally have "\<lceil>b / 2\<rceil> < \<lceil>b\<rceil>" by simp
  moreover have "0 < \<lceil>b\<rceil>" using \<open>200 < b \<and> 40 \<le> b / 2\<close> by (simp add: less_ceiling_iff)
  ultimately show "(b / 2, b) \<in> measure (\<lambda>b. nat \<lceil>b\<rceil>)" by simp
qed

declare halve_while.simps [simp del]

text \<open>
  \<^verbatim>\<open>while bpm < 50 and bpm * 2 <= 200: bpm *= 2\<close>. On a tempo that is not positive this
  loop runs forever, so its result is optional.
\<close>

partial_function (option) double_while :: "real \<Rightarrow> real option" where
  "double_while b = (if b < 50 \<and> b * 2 \<le> 200 then double_while (b * 2) else Some b)"

text \<open>\<^verbatim>\<open>_estimate_tempo_from_ioi\<close>; \<open>None\<close> stands for a call that does not return.\<close>

definition estimate_tempo_from_ioi :: "int list \<Rightarrow> real option" where
  "estimate_tempo_from_ioi onsets_ms =
     (if length onsets_ms < 4 then Some 0
      else
        let intervals = ioi_intervals onsets_ms
        in if length intervals < 3 then Some 0
           else
             let median_ioi = np_median intervals
             in if median_ioi \<le> 0 then Some 0
                else double_while (halve_while (60000 / median_ioi)))"

text \<open>
  Step 5b of \<^verbatim>\<open>detect_beats\<close>: the tempo and confidence that \<^verbatim>\<open>_estimate_tempo\<close> returned
  (\<open>bpm0\<close>, \<open>confidence0\<close>) are checked against the onsets; the result is the pair of
  \<^verbatim>\<open>bpm\<close> and \<^verbatim>\<open>confidence\<close> after the step.
\<close>

definition detect_beats_step5b :: "real \<Rightarrow> real \<Rightarrow> int list \<Rightarrow> (real \<times> real) option" where
  "detect_beats_step5b bpm0 confidence0 onsets_ms =
     (if onsets_ms \<noteq> [] \<and> 4 \<le> length onsets_ms then
        case estimate_tempo_from_ioi onsets_ms of
          None \<Rightarrow> None
        | Some ioi_bpm \<Rightarrow>
            if 0 < ioi_bpm then
              let ratio = (if 0 < ioi_bpm then bpm0 / ioi_bpm else 999)
              in if 1.8 < ratio \<or> ratio < 0.55
                 then Some (ioi_bpm, max 0.1 (confidence0 * 0.5))
                 else Some (bpm0, confidence0)
            else Some (bpm0, confidence0)
      else Some (bpm0, confidence0))"

text \<open>The gaps between consecutive onsets, all of them.\<close>

definition consecutive_gaps :: "int list \<Rightarrow> int list" where
  "consecutive_gaps xs = map (\<lambda>i. xs ! Suc i - xs ! i) [0..<length xs - 1]"

text \<open>
  The tempo of the specification for a median gap \<open>m\<close>: 60000 / m, halved once when above
  200, doubled once when below 50.
\<close>

definition folded_bpm :: "real \<Rightarrow> real" where
  "folded_bpm m =
     (let b = 60000 / m in if 200 < b then b / 2 else if b < 50 then b * 2 else b)"

subsection \<open>Autocorrelation tempo with octave correction\<close>

definition py_bind :: "py_error + 'a \<Rightarrow> ('a \<Rightarrow> py_error + 'b) \<Rightarrow> py_error + 'b" where
  "py_bind m f = (case m of Inl e \<Rightarrow> Inl e | Inr x \<Rightarrow> f x)"

text \<open>\<^verbatim>\<open>xs[i]\<close>: a negative index counts from the end, an index out of range raises.\<close>

definition py_index :: "'a list \<Rightarrow> int \<Rightarrow> py_error + 'a" where
  "py_index xs i =
     (if 0 \<le> i \<and> i < int (length xs) then Inr (xs ! nat i)
      else if i < 0 \<and> - int (length xs) \<le> i then Inr (xs ! nat (int (length xs) + i))
      else Inl IndexError)"

text \<open>\<^verbatim>\<open>xs[a:b]\<close> for bounds that are not negative, as they are at every use below.\<close>

definition py_slice :: "'a list \<Rightarrow> int \<Rightarrow> int \<Rightarrow> 'a list" where
  "py_slice xs a b = take (nat b - nat a) (drop (nat a) xs)"

text \<open>\<^verbatim>\<open>numpy.max\<close> and \<^verbatim>\<open>numpy.argmax\<close> (the first index of the maximum); both raise on an
  empty array.\<close>

definition np_max :: "real list \<Rightarrow> py_error + real" where
  "np_max xs = (case xs of [] \<Rightarrow> Inl ValueError | x # rest \<Rightarrow> Inr (fold max rest x))"

definition np_argmax :: "real list \<Rightarrow> py_error + nat" where
  "np_argmax xs =
     (case xs of
        [] \<Rightarrow> Inl ValueError
      | x # rest \<Rightarrow>
          Inr (fst (fold (\<lambda>i (best, v). if v < xs ! i then (i, xs ! i) else (best, v))
                      [1..<length xs] (0, x))))"

text \<open>
  The first block of the octave correction in \<^verbatim>\<open>_estimate_tempo\<close>: from the lag
  \<open>peak_idx\<close>, the tempo \<open>bpm\<close> and the peak value \<open>peak_val\<close> to the tempo and peak value
  after the check at twice the lag.
\<close>

definition octave_check_double_lag ::
  "real list \<Rightarrow> int \<Rightarrow> real \<Rightarrow> real \<Rightarrow> py_error + (real \<times> real)" where
  "octave_check_double_lag autocorr peak_idx bpm0 peak_val =
     (let double_lag = peak_idx * 2
      in if double_lag < int (length autocorr) then
           let search_start = max 0 (double_lag - 3);
               search_end = min (int (length autocorr)) (double_lag + 4)
           in py_bind (np_max (py_slice autocorr search_start search_end)) (\<lambda>local_peak.
                if peak_val * 0.8 < local_peak then
                  let half_bpm = bpm0 / 2
                  in if 40 \<le> half_bpm \<and> half_bpm \<le> 200 then Inr (half_bpm, local_peak)
                     else Inr (bpm0, peak_val)
                else Inr (bpm0, peak_val))
         else Inr (bpm0, peak_val))"

text \<open>The second block: the check at half the lag, on the values the first block left.\<close>

definition octave_check_half_lag ::
  "real list \<Rightarrow> int \<Rightarrow> int \<Rightarrow> real \<Rightarrow> real \<Rightarrow> py_error + real" where
  "octave_check_half_lag autocorr min_lag peak_idx bpm1 peak_val =
     (let half_lag = peak_idx div 2
      in if min_lag \<le> half_lag then
           let search_start = max 0 (half_lag - 2);
               search_end = min (int (length autocorr)) (half_lag + 3)
           in py_bind (np_max (py_slice autocorr search_start search_end)) (\<lambda>local_peak.
                if peak_val * 0.85 < local_peak then
                  let double_bpm = bpm1 * 2
                  in if 40 \<le> double_bpm \<and> double_bpm \<le> 200 then Inr double_bpm
                     else Inr bpm1
                else Inr bpm1)
         else Inr bpm1)"

text \<open>The bounds of the lag window for 200 and 40 beats per minute.\<close>

definition tempo_min_lag :: "real \<Rightarrow> int" where
  "tempo_min_lag frames_per_sec = max 1 (py_int (frames_per_sec * 60 / 200))"

definition tempo_max_lag :: "real list \<Rightarrow> real \<Rightarrow> int" where
  "tempo_max_lag autocorr frames_per_sec =
     min (int (length autocorr) - 1) (py_int (frames_per_sec * 60 / 40))"

text \<open>
  \<^verbatim>\<open>_estimate_tempo\<close> from the point where the autocorrelation is at hand. The argument
  \<open>autocorr\<close> is the array \<^verbatim>\<open>np.correlate(onset_env, onset_env, mode='full')[n:]\<close>, which has
  one entry less than the envelope, so \<^verbatim>\<open>n\<close> is its length plus one. The result is the
  pair of tempo and confidence.
\<close>

definition estimate_tempo :: "real list \<Rightarrow> int \<Rightarrow> int \<Rightarrow> py_error + (real \<times> real)" where
  "estimate_tempo autocorr sr hop_size =
     (if length autocorr + 1 < 100 then Inr (0, 0)
      else
        py_bind (py_truediv (of_int sr) (of_int hop_size)) (\<lambda>frames_per_sec.
          let min_lag = tempo_min_lag frames_per_sec;
              max_lag = tempo_max_lag autocorr frames_per_sec
          in if max_lag \<le> min_lag then Inr (0, 0)
             else
               let search = py_slice autocorr min_lag (max_lag + 1)
               in if length search = 0 then Inr (0, 0)
                  else
                    py_bind (np_argmax search) (\<lambda>am.
                      let peak_idx = int am + min_lag
                      in py_bind (py_index autocorr peak_idx) (\<lambda>peak_val.
                           let bpm0 = 60 * frames_per_sec / of_int peak_idx
                           in py_bind (octave_check_double_lag autocorr peak_idx bpm0 peak_val)
                                (\<lambda>(bpm1, peak_val1).
                                  py_bind (octave_check_half_lag autocorr min_lag peak_idx bpm1
                                             peak_val1)
                                    (\<lambda>bpm2.
                                      let confidence =
                                            peak_val1 / (autocorr ! 0 + 1 / 10000000000)
                                      in Inr (bpm2, min 1 (max 0 confidence))))))))"

text \<open>
  The largest autocorrelation value at the indices within \<open>r\<close> of the lag \<open>c\<close> (and inside
  the array), as the specification words the two local peaks.
\<close>

definition window_max :: "real list \<Rightarrow> int \<Rightarrow> int \<Rightarrow> real" where
  "window_max autocorr c r =
     Max ((\<lambda>i. autocorr ! i) ` {i. i < length autocorr \<and> c - r \<le> int i \<and> int i \<le> c + r})"

text \<open>
  Three autocorrelation arrays of 99 entries (an envelope of 100 frames). The first has its
  largest value in the tempo window at lag 20 and further peaks at lags 12 and 40; the
  second has it at lag 30 with a further peak at lag 60; the third has it at lag 30 with a
  further peak at lag 15.
\<close>

definition autocorr_three_peaks :: "real list" where
  "autocorr_three_peaks =
     replicate 12 0 @ [9] @ replicate 7 0 @ [10] @ replicate 19 0 @ [9] @ replicate 58 0"

definition autocorr_slow_peak :: "real list" where
  "autocorr_slow_peak = replicate 30 0 @ [10] @ replicate 29 0 @ [9] @ replicate 38 0"

definition autocorr_fast_peak :: "real list" where
  "autocorr_fast_peak = replicate 15 0 @ [19 / 2] @ replicate 14 0 @ [10] @ replicate 68 0"

section \<open>Beat grid and beat snap (beat\_detection.py, funscript\_io.py, main\_window.py)\<close>

record BeatData =
  beats :: "int list"
  onsets :: "int list"
  bpm :: real
  confidence :: real
  subdivisions :: int













section \<open>Facts about rounding\<close>


lemma py_round_bounds: "of_int \<lfloor>x\<rfloor> \<le> (of_int (py_round x) :: real)" "py_round x \<le> \<lfloor>x\<rfloor> + 1"
  by (simp_all add: py_round_def Let_def)

lemma py_round_of_int [simp]: "py_round (of_int k) = k"
  by (simp add: py_round_def Let_def)

lemma py_round_mono:
  assumes "x \<le> y"
  shows "py_round x \<le> py_round y"
proof (cases "\<lfloor>x\<rfloor> = \<lfloor>y\<rfloor>")
  case True
  with assms show ?thesis by (auto simp add: py_round_def Let_def)
next
  case False
  with assms have "\<lfloor>x\<rfloor> + 1 \<le> \<lfloor>y\<rfloor>" using floor_mono [of x y] by linarith
  moreover have "py_round x \<le> \<lfloor>x\<rfloor> + 1" by (rule py_round_bounds)
  moreover have "\<lfloor>y\<rfloor> \<le> py_round y" using py_round_bounds(1) [of y] by linarith
  ultimately show ?thesis by linarith
qed

lemma py_round_range:
  assumes "0 \<le> x" "x \<le> 100"
  shows "0 \<le> py_round x \<and> py_round x \<le> 100"
proof -
  have "py_round 0 \<le> py_round x" using assms(1) by (rule py_round_mono)
  moreover have "py_round x \<le> py_round 100" using assms(2) by (rule py_round_mono)
  moreover have "py_round 0 = 0" using py_round_of_int [of 0] by simp
  moreover have "py_round 100 = 100" using py_round_of_int [of 100] by simp
  ultimately show ?thesis by simp
qed

section \<open>Facts about the calibration mapping\<close>

lemma map_value_nondegenerate:
  assumes "max_val c \<noteq> min_val c"
  shows "map_value c raw =
           Inr (py_round
             ((let n0 = (raw - min_val c) / (max_val c - min_val c);
                   n1 = (if sensitivity c \<noteq> 1 then (n0 - 0.5) * sensitivity c + 0.5 else n0);
                   n2 = max 0 (min 1 n1)
               in if inverted c then 1 - n2 else n2) * 100))"
  using assms by (simp add: map_value_def py_truediv_def Let_def)

lemma map_value_unrounded_eq:
  assumes "max_val c \<noteq> min_val c"
  shows "map_value c raw = Inr (py_round (map_value_unrounded c raw))"
  using assms by (simp add: map_value_nondegenerate map_value_unrounded_def Let_def)

lemma map_value_unrounded_range: "0 \<le> map_value_unrounded c raw \<and> map_value_unrounded c raw \<le> 100"
  by (simp add: map_value_unrounded_def Let_def)

lemma map_value_unrounded_mono:
  assumes "min_val c < max_val c" "\<not> inverted c" "0 \<le> sensitivity c" "r1 \<le> r2"
  shows "map_value_unrounded c r1 \<le> map_value_unrounded c r2"
proof -
  let ?w = "max_val c - min_val c"
  have w: "0 < ?w" using assms(1) by simp
  have "(r1 - min_val c) / ?w \<le> (r2 - min_val c) / ?w"
    using assms(4) w by (simp add: divide_right_mono)
  then have "((r1 - min_val c) / ?w - 1 / 2) * sensitivity c
               \<le> ((r2 - min_val c) / ?w - 1 / 2) * sensitivity c"
    using assms(3) by (simp add: mult_right_mono)
  then show ?thesis
    using assms(2) by (simp add: map_value_unrounded_def Let_def max_def min_def)
qed

section \<open>Claims about the calibration mapping\<close>




text \<open>
  C6 (as amended). For every calibration with \<open>max_val > min_val\<close>, \<open>inverted\<close> unset and a
  sensitivity that is not negative, \<open>map_value\<close> is non-decreasing in the raw input; for
  every calibration and input it returns (it never raises) an integer in 0..100; and for
  \<open>max_val = min_val\<close> it returns 50.
\<close>

theorem C6_map_value_monotone_bounded:
  "(min_val c < max_val c \<and> \<not> inverted c \<and> 0 \<le> sensitivity c \<and> r1 \<le> r2 \<longrightarrow>
      (\<exists>k1 k2. map_value c r1 = Inr k1 \<and> map_value c r2 = Inr k2 \<and> k1 \<le> k2))
   \<and> (\<exists>k. map_value c raw = Inr k \<and> 0 \<le> k \<and> k \<le> 100)
   \<and> (max_val c = min_val c \<longrightarrow> map_value c raw = Inr 50)"
proof (intro conjI impI)
  assume h: "min_val c < max_val c \<and> \<not> inverted c \<and> 0 \<le> sensitivity c \<and> r1 \<le> r2"
  then have ne: "max_val c \<noteq> min_val c" by simp
  have "py_round (map_value_unrounded c r1) \<le> py_round (map_value_unrounded c r2)"
    using h by (intro py_round_mono map_value_unrounded_mono) simp_all
  then show "\<exists>k1 k2. map_value c r1 = Inr k1 \<and> map_value c r2 = Inr k2 \<and> k1 \<le> k2"
    using ne by (simp add: map_value_unrounded_eq)
next
  show "\<exists>k. map_value c raw = Inr k \<and> 0 \<le> k \<and> k \<le> 100"
  proof (cases "max_val c = min_val c")
    case True
    then show ?thesis by (simp add: map_value_def)
  next
    case False
    then show ?thesis
      using py_round_range [of "map_value_unrounded c raw"] map_value_unrounded_range [of c raw]
      by (simp add: map_value_unrounded_eq)
  qed
next
  assume "max_val c = min_val c"
  then show "map_value c raw = Inr 50" by (simp add: map_value_def)
qed

theorem C6_map_value_monotone_bounded_witness:
  "(\<exists>k1 k2. map_value \<lparr>min_val = 0, max_val = 1, inverted = False, deadzone = 0.02,
                 sensitivity = 2\<rparr> (1 / 4) = Inr k1
      \<and> map_value \<lparr>min_val = 0, max_val = 1, inverted = False, deadzone = 0.02,
                 sensitivity = 2\<rparr> (1 / 2) = Inr k2
      \<and> k1 \<le> k2)
   \<and> map_value \<lparr>min_val = 0, max_val = 1, inverted = False, deadzone = 0.02,
          sensitivity = 2\<rparr> (1 / 4) = Inr 0
   \<and> map_value \<lparr>min_val = 0, max_val = 1, inverted = False, deadzone = 0.02,
          sensitivity = 2\<rparr> (1 / 2) = Inr 50"
  using C6_map_value_monotone_bounded
          [of "\<lparr>min_val = 0, max_val = 1, inverted = False, deadzone = 0.02, sensitivity = 2\<rparr>"
              "1 / 4" "1 / 2" 0]
  by (simp add: map_value_def py_truediv_def py_round_def Let_def)

text \<open>
  C6 as stated fails for a negative sensitivity: with range 0..1, \<open>inverted\<close> unset and
  sensitivity -1 the raw inputs 0 and 1 are mapped to 100 and 0.
\<close>

theorem C6_negative_sensitivity_counterexample:
  "min_val \<lparr>min_val = 0, max_val = 1, inverted = False, deadzone = 0.02, sensitivity = - 1\<rparr>
     < max_val \<lparr>min_val = 0, max_val = 1, inverted = False, deadzone = 0.02, sensitivity = - 1\<rparr>
   \<and> \<not> inverted \<lparr>min_val = 0, max_val = 1, inverted = False, deadzone = 0.02,
          sensitivity = - 1\<rparr>
   \<and> (0::real) \<le> 1
   \<and> map_value \<lparr>min_val = 0, max_val = 1, inverted = False, deadzone = 0.02,
          sensitivity = - 1\<rparr> 0 = Inr 100
   \<and> map_value \<lparr>min_val = 0, max_val = 1, inverted = False, deadzone = 0.02,
          sensitivity = - 1\<rparr> 1 = Inr 0"
  by (simp add: map_value_def py_truediv_def py_round_def Let_def)

section \<open>The hysteresis filter\<close>

lemma hysteresis_filter_emits:
  "last_emitted (snd (hysteresis_filter f v)) = Some (fst (hysteresis_filter f v))"
  by (simp add: hysteresis_filter_def Let_def split: option.splits)

lemma hysteresis_filter_band [simp]: "band (snd (hysteresis_filter f v)) = band f"
  by (simp add: hysteresis_filter_def Let_def split: option.splits)

lemma hysteresis_feed_band [simp]: "band (hysteresis_feed f vs) = band f"
  by (induction vs arbitrary: f) simp_all

lemma hysteresis_no_direction:
  assumes "last_emitted f = Some e" "direction f = 0" "of_int \<bar>v - e\<bar> < band f"
  shows "hysteresis_filter f v = (e, f)"
  using assms by (simp add: hysteresis_filter_def Let_def)

lemma hysteresis_continue:
  assumes "last_emitted f = Some e"
    and "(0 < direction f \<and> e < v) \<or> (direction f < 0 \<and> v < e)"
  shows "hysteresis_filter f v = (v, f\<lparr>last_emitted := Some v\<rparr>)"
  using assms by (auto simp add: hysteresis_filter_def Let_def)

lemma hysteresis_no_reversal:
  assumes "last_emitted f = Some e" "direction f \<noteq> 0" "of_int \<bar>v - e\<bar> < 2 * band f"
  shows "direction (snd (hysteresis_filter f v)) = direction f"
    and "\<not> ((0 < direction f \<and> e < v) \<or> (direction f < 0 \<and> v < e)) \<Longrightarrow>
           hysteresis_filter f v = (e, f)"
  using assms by (auto simp add: hysteresis_filter_def Let_def)

lemma hysteresis_feed_emitted:
  assumes "vs \<noteq> []"
  shows "\<exists>e. last_emitted (hysteresis_feed f vs) = Some e"
  using assms
proof (induction vs arbitrary: f)
  case Nil
  then show ?case by simp
next
  case (Cons v vs)
  show ?case
  proof (cases "vs = []")
    case True
    then show ?thesis by (simp add: hysteresis_filter_emits)
  next
    case False
    then show ?thesis using Cons.IH by simp
  qed
qed

text \<open>
  C9. For every input sequence fed to a HysteresisFilter after reset (so a value has been
  emitted): while no direction is established, an input that differs from the last emitted
  value by less than \<open>band\<close> leaves the emitted value and the filter unchanged; once a
  direction is established, an input continuing in that direction is emitted and keeps the
  direction; and on an input whose distance from the last emitted value is smaller than
  twice the band the direction does not change, and unless the input continues in the
  direction the last emitted value is repeated.
\<close>

theorem C9_hysteresis:
  assumes "vs \<noteq> []" and "s = hysteresis_feed (hysteresis_reset f0) vs"
  shows "\<exists>e. last_emitted s = Some e \<and> band s = band f0
     \<and> (direction s = 0 \<and> of_int \<bar>v - e\<bar> < band s \<longrightarrow> hysteresis_filter s v = (e, s))
     \<and> ((0 < direction s \<and> e < v) \<or> (direction s < 0 \<and> v < e) \<longrightarrow>
          fst (hysteresis_filter s v) = v
          \<and> direction (snd (hysteresis_filter s v)) = direction s)
     \<and> (direction s \<noteq> 0 \<and> of_int \<bar>v - e\<bar> < 2 * band s \<longrightarrow>
          direction (snd (hysteresis_filter s v)) = direction s
          \<and> (\<not> ((0 < direction s \<and> e < v) \<or> (direction s < 0 \<and> v < e)) \<longrightarrow>
               hysteresis_filter s v = (e, s)))
     \<and> last_emitted (snd (hysteresis_filter s v)) = Some (fst (hysteresis_filter s v))"
proof -
  obtain e where e: "last_emitted s = Some e"
    using hysteresis_feed_emitted [OF assms(1)] assms(2) by blast
  have b: "band s = band f0" by (simp add: assms(2) hysteresis_reset_def)
  have c1: "direction s = 0 \<and> of_int \<bar>v - e\<bar> < band s \<longrightarrow> hysteresis_filter s v = (e, s)"
    using hysteresis_no_direction [OF e] by blast
  have c2: "(0 < direction s \<and> e < v) \<or> (direction s < 0 \<and> v < e) \<longrightarrow>
          fst (hysteresis_filter s v) = v
          \<and> direction (snd (hysteresis_filter s v)) = direction s"
    using hysteresis_continue [OF e] by auto
  have c3: "direction s \<noteq> 0 \<and> of_int \<bar>v - e\<bar> < 2 * band s \<longrightarrow>
          direction (snd (hysteresis_filter s v)) = direction s
          \<and> (\<not> ((0 < direction s \<and> e < v) \<or> (direction s < 0 \<and> v < e)) \<longrightarrow>
               hysteresis_filter s v = (e, s))"
    using hysteresis_no_reversal [OF e] by blast
  show ?thesis
    using e b c1 c2 c3 hysteresis_filter_emits [of s v] by blast
qed

theorem C9_hysteresis_witness:
  "hysteresis_filter
      (hysteresis_feed (hysteresis_reset \<lparr>band = 3 / 2, last_emitted = None, direction = 0\<rparr>) [50])
      51
     = (50, \<lparr>band = 3 / 2, last_emitted = Some 50, direction = 0\<rparr>)
   \<and> hysteresis_filter
      (hysteresis_feed (hysteresis_reset \<lparr>band = 3 / 2, last_emitted = None, direction = 0\<rparr>)
         [50, 53]) 55
     = (55, \<lparr>band = 3 / 2, last_emitted = Some 55, direction = 1\<rparr>)
   \<and> hysteresis_filter
      (hysteresis_feed (hysteresis_reset \<lparr>band = 3 / 2, last_emitted = None, direction = 0\<rparr>)
         [50, 53]) 51
     = (53, \<lparr>band = 3 / 2, last_emitted = Some 53, direction = 1\<rparr>)"
  using C9_hysteresis [of "[50]" _ "\<lparr>band = 3 / 2, last_emitted = None, direction = 0\<rparr>" 51, OF _ refl]
    C9_hysteresis [of "[50, 53]" _ "\<lparr>band = 3 / 2, last_emitted = None, direction = 0\<rparr>" 55, OF _ refl]
    C9_hysteresis [of "[50, 53]" _ "\<lparr>band = 3 / 2, last_emitted = None, direction = 0\<rparr>" 51, OF _ refl]
  by (simp add: hysteresis_reset_def hysteresis_filter_def Let_def)

section \<open>Axis scaling in set\_config\<close>

lemma adjust_config_rotation:
  assumes "axis \<in> ROTATION_AXES" "config < length h"
  shows "adjust_config_for_axis h config axis =
           (h @ [(h ! config)\<lparr>spike_threshold := spike_threshold (h ! config) * 60,
                              slew_max_rate := slew_max_rate (h ! config) * 60,
                              jerk_max_jerk := jerk_max_jerk (h ! config) * 60\<rparr>],
            length h)"
  using assms by (simp add: adjust_config_for_axis_def Let_def nth_append)

lemma adjust_config_position:
  assumes "axis \<notin> ROTATION_AXES"
  shows "adjust_config_for_axis h config axis = (h, config)"
  using assms by (simp add: adjust_config_for_axis_def)

lemma position_axes_not_rotation:
  "axis \<in> {''x'', ''y'', ''z''} \<Longrightarrow> axis \<notin> ROTATION_AXES"
  by (auto simp add: ROTATION_AXES_def)

lemma set_config_rotation:
  assumes "axis_name st \<in> ROTATION_AXES" "config < length h"
  shows "fst (set_config h st config) =
           h @ [(h ! config)\<lparr>spike_threshold := spike_threshold (h ! config) * 60,
                              slew_max_rate := slew_max_rate (h ! config) * 60,
                              jerk_max_jerk := jerk_max_jerk (h ! config) * 60\<rparr>]"
    and "effective_config_ref (snd (set_config h st config)) = length h"
    and "config_ref (snd (set_config h st config)) = config"
    and "axis_name (snd (set_config h st config)) = axis_name st"
  using assms by (simp_all add: set_config_def adjust_config_rotation apply_config_def Let_def)

lemma set_config_position:
  assumes "axis_name st \<notin> ROTATION_AXES"
  shows "fst (set_config h st config) = h"
    and "effective_config_ref (snd (set_config h st config)) = config"
    and "config_ref (snd (set_config h st config)) = config"
    and "axis_name (snd (set_config h st config)) = axis_name st"
  using assms by (simp_all add: set_config_def adjust_config_position apply_config_def Let_def)

lemma set_config_filters:
  "spike_dot_threshold (snd (set_config h st config)) =
     spike_threshold (fst (set_config h st config) ! effective_config_ref (snd (set_config h st config)))
   \<and> slew_dot_max_rate (snd (set_config h st config)) =
     slew_max_rate (fst (set_config h st config) ! effective_config_ref (snd (set_config h st config)))
   \<and> jerk_dot_max_jerk (snd (set_config h st config)) =
     jerk_max_jerk (fst (set_config h st config) ! effective_config_ref (snd (set_config h st config)))
   \<and> deadzone_dot_threshold (snd (set_config h st config)) =
     deadzone_threshold (fst (set_config h st config) ! effective_config_ref (snd (set_config h st config)))
   \<and> hysteresis_dot_band (snd (set_config h st config)) =
     hysteresis_band (fst (set_config h st config) ! effective_config_ref (snd (set_config h st config)))"
  by (simp add: set_config_def apply_config_def Let_def split: prod.splits)

text \<open>
  C5. For every StabilizationConfig object \<open>config\<close> of the store, \<open>set_config\<close> on a
  rotation axis leaves every object that existed before the call as it was (the caller's
  configuration among them) and makes the effective configuration a new object whose
  \<open>spike_threshold\<close>, \<open>slew_max_rate\<close> and \<open>jerk_max_jerk\<close> are 60 times the given ones and
  whose other fields, \<open>deadzone_threshold\<close> and \<open>hysteresis_band\<close> among them, are the given
  ones; a second call with the same object yields the same effective values again; on the
  position axes, and on every axis that is not a rotation axis, the effective configuration
  is the given object itself and the store does not change; the filters take their
  parameters from the effective configuration.
\<close>

theorem C5_set_config:
  assumes "config < length h"
    and "(h1, st1) = set_config h st config"
    and "(h2, st2) = set_config h1 st1 config"
  shows "(\<forall>r < length h. h1 ! r = h ! r \<and> h2 ! r = h ! r)
     \<and> config_ref st1 = config \<and> config_ref st2 = config
     \<and> (axis_name st \<in> ROTATION_AXES \<longrightarrow>
          h1 ! effective_config_ref st1 = scaled60 (h ! config)
          \<and> h2 ! effective_config_ref st2 = scaled60 (h ! config)
          \<and> deadzone_threshold (h1 ! effective_config_ref st1) = deadzone_threshold (h ! config)
          \<and> hysteresis_band (h1 ! effective_config_ref st1) = hysteresis_band (h ! config))
     \<and> (axis_name st \<notin> ROTATION_AXES \<longrightarrow>
          h1 = h \<and> h2 = h \<and> effective_config_ref st1 = config \<and> effective_config_ref st2 = config)
     \<and> (axis_name st \<in> {''x'', ''y'', ''z''} \<longrightarrow> axis_name st \<notin> ROTATION_AXES)
     \<and> spike_dot_threshold st1 = spike_threshold (h1 ! effective_config_ref st1)
     \<and> slew_dot_max_rate st1 = slew_max_rate (h1 ! effective_config_ref st1)
     \<and> jerk_dot_max_jerk st1 = jerk_max_jerk (h1 ! effective_config_ref st1)
     \<and> deadzone_dot_threshold st1 = deadzone_threshold (h1 ! effective_config_ref st1)
     \<and> hysteresis_dot_band st1 = hysteresis_band (h1 ! effective_config_ref st1)"
proof -
  have h1: "h1 = fst (set_config h st config)" and st1: "st1 = snd (set_config h st config)"
    using assms(2) by (metis fst_conv, metis snd_conv)
  have h2: "h2 = fst (set_config h1 st1 config)" and st2: "st2 = snd (set_config h1 st1 config)"
    using assms(3) by (metis fst_conv, metis snd_conv)
  have cfg: "config_ref st1 = config \<and> config_ref st2 = config"
    by (simp add: st1 st2 set_config_def apply_config_def Let_def split: prod.splits)
  have filt: "spike_dot_threshold st1 = spike_threshold (h1 ! effective_config_ref st1)
     \<and> slew_dot_max_rate st1 = slew_max_rate (h1 ! effective_config_ref st1)
     \<and> jerk_dot_max_jerk st1 = jerk_max_jerk (h1 ! effective_config_ref st1)
     \<and> deadzone_dot_threshold st1 = deadzone_threshold (h1 ! effective_config_ref st1)
     \<and> hysteresis_dot_band st1 = hysteresis_band (h1 ! effective_config_ref st1)"
    unfolding h1 st1 by (rule set_config_filters)
  show ?thesis
  proof (cases "axis_name st \<in> ROTATION_AXES")
    case True
    have a1: "axis_name st1 \<in> ROTATION_AXES"
      using True set_config_rotation(4) [OF True assms(1)] by (simp add: st1)
    have l1: "config < length h1"
      using assms(1) by (simp add: h1 set_config_rotation(1) [OF True assms(1)])
    have e1: "h1 = h @ [scaled60 (h ! config)]"
      by (simp add: h1 set_config_rotation(1) [OF True assms(1)] scaled60_def mult.commute)
    have r1: "effective_config_ref st1 = length h"
      by (simp add: st1 set_config_rotation(2) [OF True assms(1)])
    have c1: "h1 ! config = h ! config" using assms(1) by (simp add: e1 nth_append)
    have e2: "h2 = h1 @ [scaled60 (h ! config)]"
      by (simp add: h2 set_config_rotation(1) [OF a1 l1] c1 scaled60_def mult.commute)
    have r2: "effective_config_ref st2 = length h1"
      by (simp add: st2 set_config_rotation(2) [OF a1 l1])
    have old: "\<forall>r < length h. h1 ! r = h ! r \<and> h2 ! r = h ! r"
      by (simp add: e2 e1 nth_append)
    have eff: "h1 ! effective_config_ref st1 = scaled60 (h ! config)"
      "h2 ! effective_config_ref st2 = scaled60 (h ! config)"
      by (simp_all add: r1 r2 e1 e2 nth_append)
    have keep: "deadzone_threshold (h1 ! effective_config_ref st1) = deadzone_threshold (h ! config)"
      "hysteresis_band (h1 ! effective_config_ref st1) = hysteresis_band (h ! config)"
      by (simp_all add: eff scaled60_def)
    show ?thesis using True old eff keep cfg filt position_axes_not_rotation by blast
  next
    case False
    have e1: "h1 = h" by (simp add: h1 set_config_position(1) [OF False])
    have a1: "axis_name st1 \<notin> ROTATION_AXES"
      using False by (simp add: st1 set_config_position(4) [OF False])
    have e2: "h2 = h" by (simp add: h2 set_config_position(1) [OF a1] e1)
    have r: "effective_config_ref st1 = config" "effective_config_ref st2 = config"
      unfolding st2 using set_config_position(2) [OF a1]
      by (simp_all add: st1 set_config_position(2) [OF False])
    show ?thesis using False e1 e2 r cfg filt by blast
  qed
qed

theorem C5_set_config_witness:
  "spike_threshold (fst (set_config [preset_medium]
       \<lparr>axis_name = ''pitch'', config_ref = 0, effective_config_ref = 0,
        spike_dot_threshold = 0, one_euro_dot_min_cutoff = 0, one_euro_dot_beta = 0,
        slew_dot_max_rate = 0, jerk_dot_max_jerk = 0, deadzone_dot_threshold = 0,
        hysteresis_dot_band = 0\<rparr> 0) ! 1) = 30
   \<and> fst (set_config [preset_medium]
       \<lparr>axis_name = ''pitch'', config_ref = 0, effective_config_ref = 0,
        spike_dot_threshold = 0, one_euro_dot_min_cutoff = 0, one_euro_dot_beta = 0,
        slew_dot_max_rate = 0, jerk_dot_max_jerk = 0, deadzone_dot_threshold = 0,
        hysteresis_dot_band = 0\<rparr> 0) ! 0 = preset_medium
   \<and> spike_dot_threshold (snd (set_config [preset_medium]
       \<lparr>axis_name = ''pitch'', config_ref = 0, effective_config_ref = 0,
        spike_dot_threshold = 0, one_euro_dot_min_cutoff = 0, one_euro_dot_beta = 0,
        slew_dot_max_rate = 0, jerk_dot_max_jerk = 0, deadzone_dot_threshold = 0,
        hysteresis_dot_band = 0\<rparr> 0)) = 30
   \<and> hysteresis_dot_band (snd (set_config [preset_medium]
       \<lparr>axis_name = ''pitch'', config_ref = 0, effective_config_ref = 0,
        spike_dot_threshold = 0, one_euro_dot_min_cutoff = 0, one_euro_dot_beta = 0,
        slew_dot_max_rate = 0, jerk_dot_max_jerk = 0, deadzone_dot_threshold = 0,
        hysteresis_dot_band = 0\<rparr> 0)) = 3 / 2
   \<and> spike_dot_threshold (snd (set_config [preset_medium]
       \<lparr>axis_name = ''x'', config_ref = 0, effective_config_ref = 0,
        spike_dot_threshold = 0, one_euro_dot_min_cutoff = 0, one_euro_dot_beta = 0,
        slew_dot_max_rate = 0, jerk_dot_max_jerk = 0, deadzone_dot_threshold = 0,
        hysteresis_dot_band = 0\<rparr> 0)) = 1 / 2"
  using C5_set_config [of 0 "[preset_medium]" _ _
       "\<lparr>axis_name = ''pitch'', config_ref = 0, effective_config_ref = 0,
        spike_dot_threshold = 0, one_euro_dot_min_cutoff = 0, one_euro_dot_beta = 0,
        slew_dot_max_rate = 0, jerk_dot_max_jerk = 0, deadzone_dot_threshold = 0,
        hysteresis_dot_band = 0\<rparr>" _ _, OF _ prod.collapse prod.collapse]
    C5_set_config [of 0 "[preset_medium]" _ _
       "\<lparr>axis_name = ''x'', config_ref = 0, effective_config_ref = 0,
        spike_dot_threshold = 0, one_euro_dot_min_cutoff = 0, one_euro_dot_beta = 0,
        slew_dot_max_rate = 0, jerk_dot_max_jerk = 0, deadzone_dot_threshold = 0,
        hysteresis_dot_band = 0\<rparr>" _ _, OF _ prod.collapse prod.collapse]
  by (simp add: set_config_def adjust_config_for_axis_def apply_config_def ROTATION_AXES_def
        scaled60_def preset_medium_def Let_def)

section \<open>Recorder.add\_sample\<close>

lemma add_sample_axis_other:
  assumes "a \<noteq> name"
  shows "axis_view (add_sample_axis t mp name r) a = axis_view r a"
  using assms by (simp add: add_sample_axis_def axis_view_def Let_def split: option.splits)

lemma add_sample_axis_view_cong:
  assumes "axis_view r1 a = axis_view r2 a"
  shows "axis_view (add_sample_axis t mp a r1) a = axis_view (add_sample_axis t mp a r2) a"
  using assms by (auto simp add: add_sample_axis_def axis_view_def Let_def split: option.splits)

lemma fold_add_sample_axis_other:
  assumes "a \<notin> set names"
  shows "axis_view (fold (add_sample_axis t mp) names r) a = axis_view r a"
  using assms by (induction names arbitrary: r) (simp_all add: add_sample_axis_other)

lemma fold_add_sample_axis_member:
  assumes "distinct names" "a \<in> set names"
  shows "axis_view (fold (add_sample_axis t mp) names r) a = axis_view (add_sample_axis t mp a r) a"
  using assms
proof (induction names arbitrary: r)
  case Nil
  then show ?case by simp
next
  case (Cons n ns)
  show ?case
  proof (cases "n = a")
    case True
    with Cons.prems have "a \<notin> set ns" by simp
    then show ?thesis using True by (simp add: fold_add_sample_axis_other)
  next
    case False
    with Cons.prems have "distinct ns" "a \<in> set ns" by simp_all
    then have "axis_view (fold (add_sample_axis t mp) ns (add_sample_axis t mp n r)) a
                 = axis_view (add_sample_axis t mp a (add_sample_axis t mp n r)) a"
      by (rule Cons.IH)
    also have "\<dots> = axis_view (add_sample_axis t mp a r) a"
      using False by (intro add_sample_axis_view_cong add_sample_axis_other) simp
    finally show ?thesis by simp
  qed
qed

lemma add_sample_axis_effect:
  "(buffer (add_sample_axis t mp a r) a, last_sample_time (add_sample_axis t mp a r) a)
     = sample_effect r t mp a"
  by (auto simp add: add_sample_axis_def sample_effect_def Let_def max_def min_def
        split: option.splits)

text \<open>
  C10 (as amended). When \<open>is_recording\<close> is false, \<open>add_sample\<close> changes nothing. When
  recording is active, for each active axis whose controller axis has a value in
  \<open>mapped_positions\<close> it appends an action at the video time with the position clamped to
  0..100 and records that time, unless the last accepted sample of that axis has a time
  that is not negative and lies less than \<open>min_interval_ms\<close> before the new video time, in
  which case the sample is discarded; for an active axis without a mapped position, and
  for every axis that is not active, buffer and last sample time stay as they are.
\<close>

theorem C10_add_sample:
  "(\<not> is_recording r \<longrightarrow> add_sample r t mp = r)
   \<and> (is_recording r \<and> distinct (active_axes r) \<longrightarrow>
        (\<forall>a. (buffer (add_sample r t mp) a, last_sample_time (add_sample r t mp) a)
               = (if a \<in> set (active_axes r) then sample_effect r t mp a
                  else (buffer r a, last_sample_time r a))))"
proof (intro conjI impI allI)
  assume "\<not> is_recording r"
  then show "add_sample r t mp = r" by (simp add: add_sample_def)
next
  fix a
  assume h: "is_recording r \<and> distinct (active_axes r)"
  let ?r' = "fold (add_sample_axis t mp) (active_axes r) r"
  have eq: "add_sample r t mp = ?r'" using h by (simp add: add_sample_def)
  show "(buffer (add_sample r t mp) a, last_sample_time (add_sample r t mp) a)
          = (if a \<in> set (active_axes r) then sample_effect r t mp a
             else (buffer r a, last_sample_time r a))"
  proof (cases "a \<in> set (active_axes r)")
    case True
    then have "axis_view ?r' a = axis_view (add_sample_axis t mp a r) a"
      using h by (intro fold_add_sample_axis_member) simp_all
    then show ?thesis
      using True add_sample_axis_effect [of t mp a r] by (simp add: eq axis_view_def)
  next
    case False
    then have "axis_view ?r' a = axis_view r a" by (rule fold_add_sample_axis_other)
    then show ?thesis using False by (simp add: eq axis_view_def)
  qed
qed

theorem C10_add_sample_witness:
  "buffer (add_sample (add_sample recorder_started 20 [''y'' \<mapsto> 150]) 25 [''y'' \<mapsto> 60])
       ''stroke'' = Some [\<lparr>at_ms = 20, pos = 100\<rparr>]
   \<and> buffer (add_sample (add_sample recorder_started 20 [''y'' \<mapsto> 150]) 31 [''y'' \<mapsto> 60])
       ''stroke'' = Some [\<lparr>at_ms = 20, pos = 100\<rparr>, \<lparr>at_ms = 31, pos = 60\<rparr>]
   \<and> add_sample (recorder_started\<lparr>is_recording := False\<rparr>) 20 [''y'' \<mapsto> 150]
       = recorder_started\<lparr>is_recording := False\<rparr>"
  using C10_add_sample [of recorder_started 20 "[''y'' \<mapsto> 150]"]
    C10_add_sample [of "add_sample recorder_started 20 [''y'' \<mapsto> 150]" 25 "[''y'' \<mapsto> 60]"]
    C10_add_sample [of "add_sample recorder_started 20 [''y'' \<mapsto> 150]" 31 "[''y'' \<mapsto> 60]"]
    C10_add_sample [of "recorder_started\<lparr>is_recording := False\<rparr>" 20 "[''y'' \<mapsto> 150]"]
  by (simp add: recorder_started_def start_recording_def add_sample_def add_sample_axis_def
        controller_axis_of_def Let_def)

text \<open>
  C10 as stated fails in two ways. An active axis whose controller axis has no entry in
  \<open>mapped_positions\<close> gets no action: with the stroke axis active and only a value for
  \<open>x\<close>, the buffer stays empty. And a sample 1 ms after an accepted sample is kept, not
  discarded, when the accepted sample's video time is negative.
\<close>

theorem C10_missing_position_counterexample:
  "is_recording recorder_started
   \<and> active_axes recorder_started = [''stroke'']
   \<and> buffer (add_sample recorder_started 100 [''x'' \<mapsto> 50]) ''stroke'' = Some []
   \<and> min_interval_ms recorder_started = 11
   \<and> buffer (add_sample (add_sample recorder_started (- 20) [''y'' \<mapsto> 50]) (- 19)
         [''y'' \<mapsto> 60]) ''stroke''
       = Some [\<lparr>at_ms = - 20, pos = 50\<rparr>, \<lparr>at_ms = - 19, pos = 60\<rparr>]"
  by (simp add: recorder_started_def start_recording_def add_sample_def add_sample_axis_def
        controller_axis_of_def Let_def)

section \<open>The One Euro filter\<close>








section \<open>Ramer-Douglas-Peucker reduction\<close>

lemma farthest_fold_invariant:
  fixes f :: "nat \<Rightarrow> real"
  assumes "fold (\<lambda>i (md, mi). let dist = f i in if md < dist then (dist, i) else (md, mi))
             idxs (d0, i0) = (d, i)"
  shows "(d, i) = (d0, i0) \<or> (d0 < d \<and> i \<in> set idxs)"
  using assms
proof (induction idxs arbitrary: d0 i0)
  case Nil
  then show ?case by simp
next
  case (Cons k ks)
  show ?case
  proof (cases "d0 < f k")
    case True
    with Cons.prems have
      "fold (\<lambda>i (md, mi). let dist = f i in if md < dist then (dist, i) else (md, mi))
         ks (f k, k) = (d, i)"
      by (simp add: Let_def)
    from Cons.IH [OF this] True show ?thesis by auto
  next
    case False
    with Cons.prems have
      "fold (\<lambda>i (md, mi). let dist = f i in if md < dist then (dist, i) else (md, mi))
         ks (d0, i0) = (d, i)"
      by (simp add: Let_def)
    from Cons.IH [OF this] show ?thesis by auto
  qed
qed

lemma rdp_farthest_index:
  assumes "0 < fst (rdp_farthest points)"
  shows "1 \<le> snd (rdp_farthest points) \<and> snd (rdp_farthest points) < length points - 1"
proof -
  obtain d i where di: "rdp_farthest points = (d, i)" by (cases "rdp_farthest points")
  then have "(d, i) = (0, 0) \<or> (0 < d \<and> i \<in> set [1..<length points - 1])"
    unfolding rdp_farthest_def by (rule farthest_fold_invariant)
  with assms di show ?thesis by auto
qed

lemma subseq_ends:
  assumes "2 \<le> length xs"
  shows "subseq [hd xs, last xs] xs"
proof -
  obtain a ys where xs: "xs = a # ys" using assms by (cases xs) auto
  have ne: "ys \<noteq> []" using assms xs by auto
  then have "subseq [last ys] ys" by (simp add: subseq_singleton_left)
  then show ?thesis using xs ne by simp
qed

lemma rdp_join:
  assumes n: "2 < length points" and i: "1 \<le> i" "i < length points - 1"
    and l: "rdp_ok (take (i + 1) points) left" and r: "rdp_ok (drop i points) right"
  shows "rdp_ok points (butlast left @ right)"
proof -
  have tk: "take (i + 1) points = take i points @ [points ! i]"
    using i by (simp add: take_Suc_conv_app_nth)
  have pne: "points \<noteq> []" using n by auto
  have tne: "take (i + 1) points \<noteq> []" "drop i points \<noteq> []" using i pne by simp_all
  have l': "left \<noteq> [] \<and> hd left = hd (take (i + 1) points) \<and> last left = last (take (i + 1) points)"
    using l tne(1) unfolding rdp_ok_def by blast
  have r': "right \<noteq> [] \<and> hd right = hd (drop i points) \<and> last right = last (drop i points)"
    using r tne(2) unfolding rdp_ok_def by blast
  have lt: "length (take (i + 1) points) = i + 1" using i by simp
  have ld: "length (drop i points) = length points - i" by simp
  have l2: "2 \<le> length left" using l i lt by (simp add: rdp_ok_def)
  then have lne: "left \<noteq> []" by auto
  have r2: "2 \<le> length right" using r i ld by (simp add: rdp_ok_def)
  then have rne: "right \<noteq> []" by auto
  have "last left = last (take (i + 1) points)" using l' by simp
  then have ll: "last left = points ! i" unfolding tk by simp
  have "subseq left (take (i + 1) points)" using l unfolding rdp_ok_def by blast
  then have "subseq left (take i points @ [points ! i])" unfolding tk .
  then have "subseq (butlast left @ [points ! i]) (take i points @ [points ! i])"
    using lne ll by (metis append_butlast_last_id)
  then have s1: "subseq (butlast left) (take i points)" by simp
  have s2: "subseq right (drop i points)" using r by (simp add: rdp_ok_def)
  have "subseq (butlast left @ right) (take i points @ drop i points)"
    using s1 s2 by (rule list_emb_append_mono)
  then have sub: "subseq (butlast left @ right) points" by simp
  have "length left \<le> i + 1" using l lt by (simp add: rdp_ok_def)
  moreover have "length right \<le> length points - i" using r ld by (simp add: rdp_ok_def)
  ultimately have len: "length (butlast left @ right) \<le> length points" using i by simp
  have bne: "butlast left \<noteq> []" using l2 by (cases left) auto
  have "hd left = hd (take (i + 1) points)" using l' by simp
  then have "hd left = hd points" using i by (simp add: hd_take)
  moreover have "hd (butlast left) = hd left" using bne by (cases left) auto
  ultimately have h: "hd (butlast left @ right) = hd points" using bne by simp
  have "last right = last (drop i points)" using r' by simp
  then have la: "last (butlast left @ right) = last points" using rne i by simp
  have "2 \<le> length (butlast left @ right)" using r2 by simp
  then show ?thesis using sub len h la n rne by (simp add: rdp_ok_def)
qed

lemma rdp_returns:
  assumes "0 \<le> epsilon"
  shows "\<exists>ys. rdp points epsilon = Some ys \<and> rdp_ok points ys"
proof (induction points rule: length_induct)
  case (1 points)
  show ?case
  proof (cases "length points \<le> 2")
    case True
    then have "rdp points epsilon = Some points" by (subst rdp.simps) simp
    moreover have "rdp_ok points points" by (simp add: rdp_ok_def)
    ultimately show ?thesis by blast
  next
    case False
    then have n: "2 < length points" by simp
    let ?d = "fst (rdp_farthest points)"
    let ?i = "snd (rdp_farthest points)"
    show ?thesis
    proof (cases "epsilon < ?d")
      case True
      then have "0 < ?d" using assms by simp
      then have i: "1 \<le> ?i" "?i < length points - 1" using rdp_farthest_index by blast+
      have "length (take (?i + 1) points) < length points" using i by simp
      then obtain left where left: "rdp (take (?i + 1) points) epsilon = Some left"
          "rdp_ok (take (?i + 1) points) left"
        using "1.IH" by blast
      have "length (drop ?i points) < length points" using i n by simp
      then obtain right where right: "rdp (drop ?i points) epsilon = Some right"
          "rdp_ok (drop ?i points) right"
        using "1.IH" by blast
      have "rdp points epsilon = Some (butlast left @ right)"
        using n True left(1) right(1) by (subst rdp.simps) (simp add: Let_def)
      moreover have "rdp_ok points (butlast left @ right)"
        using n i left(2) right(2) by (rule rdp_join)
      ultimately show ?thesis by blast
    next
      case False
      then have "rdp points epsilon = Some [hd points, last points]"
        using n by (subst rdp.simps) (simp add: Let_def)
      moreover have "rdp_ok points [hd points, last points]"
        using n subseq_ends [of points] by (auto simp add: rdp_ok_def)
      ultimately show ?thesis by blast
    qed
  qed
qed

text \<open>
  C7. For every point sequence and every \<open>epsilon\<close> that is not negative, \<open>_rdp\<close> returns,
  and what it returns is a subsequence of the input, not longer than the input, with the
  input's first and last point as its first and last, and the input itself when that has
  at most two points.
\<close>

theorem C7_rdp:
  assumes "0 \<le> epsilon"
  shows "\<exists>ys. rdp points epsilon = Some ys
           \<and> subseq ys points
           \<and> length ys \<le> length points
           \<and> (points \<noteq> [] \<longrightarrow> ys \<noteq> [] \<and> hd ys = hd points \<and> last ys = last points)
           \<and> (length points \<le> 2 \<longrightarrow> ys = points)"
  using rdp_returns [OF assms, of points] by (auto simp add: rdp_ok_def)

lemma sqrt_10000: "sqrt 10000 = 100"
  using real_sqrt_abs [of 100] by simp

lemma perpendicular_distance_far: "perpendicular_distance (10, 90) (0, 50) (20, 50) = 40"
  by (simp add: perpendicular_distance_def Let_def sqrt_10000)

lemma perpendicular_distance_near: "perpendicular_distance (10, 51) (0, 50) (20, 50) = 1"
  by (simp add: perpendicular_distance_def Let_def sqrt_10000)

theorem C7_rdp_witness:
  "rdp [(0, 50), (10, 90), (20, 50)] (3 / 2) = Some [(0, 50), (10, 90), (20, 50)]
   \<and> rdp [(0, 50), (10, 51), (20, 50)] (3 / 2) = Some [(0, 50), (20, 50)]
   \<and> rdp [(0, 50), (10, 51)] (3 / 2) = Some [(0, 50), (10, 51)]"
  using C7_rdp [of "3 / 2" "[(0, 50), (10, 90), (20, 50)]"]
    C7_rdp [of "3 / 2" "[(0, 50), (10, 51), (20, 50)]"]
    C7_rdp [of "3 / 2" "[(0, 50), (10, 51)]"]
  by (simp add: rdp.simps rdp_farthest_def perpendicular_distance_far
        perpendicular_distance_near Let_def)

section \<open>Tempo from inter-onset intervals\<close>

lemma consecutive_gaps_Cons2:
  "consecutive_gaps (a # b # rest) = (b - a) # consecutive_gaps (b # rest)"
proof -
  have "[0..<Suc (length rest)] = 0 # [Suc 0..<Suc (length rest)]"
    by (rule upt_conv_Cons) simp
  also have "[Suc 0..<Suc (length rest)] = map Suc [0..<length rest]"
    by (rule map_Suc_upt [symmetric])
  finally have "[0..<Suc (length rest)] = 0 # map Suc [0..<length rest]" .
  then show ?thesis by (simp add: consecutive_gaps_def comp_def del: upt_Suc)
qed

lemma consecutive_gaps_short [simp]: "consecutive_gaps [] = []" "consecutive_gaps [a] = []"
  by (simp_all add: consecutive_gaps_def)

lemma ioi_intervals_filter:
  "ioi_intervals xs = filter (\<lambda>g. 150 < g \<and> g < 2000) (consecutive_gaps xs)"
  by (induction xs rule: ioi_intervals.induct) (simp_all add: consecutive_gaps_Cons2 Let_def)

lemma ioi_intervals_range:
  assumes "g \<in> set (ioi_intervals xs)"
  shows "150 < g \<and> g < 2000"
  using assms by (simp add: ioi_intervals_filter)

lemma np_median_between:
  assumes ne: "xs \<noteq> []" and rng: "\<And>x. x \<in> set xs \<Longrightarrow> lo < x \<and> x < hi"
  shows "of_int lo < np_median xs \<and> np_median xs < of_int hi"
proof -
  let ?s = "sort xs"
  let ?n = "length ?s"
  have n: "0 < ?n" using ne by simp
  have mem: "\<And>i. i < ?n \<Longrightarrow> lo < ?s ! i \<and> ?s ! i < hi"
  proof -
    fix i assume "i < ?n"
    then have "?s ! i \<in> set ?s" by (rule nth_mem)
    then show "lo < ?s ! i \<and> ?s ! i < hi" using rng by simp
  qed
  have a: "lo < ?s ! (?n div 2) \<and> ?s ! (?n div 2) < hi" using n by (intro mem) simp
  have "?n div 2 < ?n" using n by simp
  then have "?n div 2 - 1 < ?n" by arith
  then have b: "lo < ?s ! (?n div 2 - 1) \<and> ?s ! (?n div 2 - 1) < hi" by (rule mem)
  have ra: "(of_int lo :: real) < of_int (?s ! (?n div 2)) \<and> (of_int (?s ! (?n div 2)) :: real) < of_int hi"
    using a by simp
  have rb: "(of_int lo :: real) < of_int (?s ! (?n div 2 - 1))
       \<and> (of_int (?s ! (?n div 2 - 1)) :: real) < of_int hi"
    using b by simp
  show ?thesis
  proof (cases "odd ?n")
    case True
    then have "np_median xs = of_int (?s ! (?n div 2))" by (simp add: np_median_def Let_def)
    then show ?thesis using ra by simp
  next
    case False
    then have "np_median xs = (of_int (?s ! (?n div 2 - 1)) + of_int (?s ! (?n div 2))) / 2"
      by (simp add: np_median_def Let_def)
    then show ?thesis using ra rb by simp
  qed
qed

lemma halve_while_once:
  assumes "30 < b" "b < 400"
  shows "halve_while b = (if 200 < b then b / 2 else b)"
proof (cases "200 < b")
  case True
  then have "halve_while b = halve_while (b / 2)" by (subst halve_while.simps) simp
  also have "\<dots> = b / 2" using assms by (subst halve_while.simps) simp
  finally show ?thesis using True by simp
next
  case False
  then show ?thesis by (subst halve_while.simps) simp
qed

lemma double_while_once:
  assumes "30 < b" "b \<le> 200"
  shows "double_while b = Some (if b < 50 then b * 2 else b)"
proof (cases "b < 50")
  case True
  then have "double_while b = double_while (b * 2)" by (subst double_while.simps) simp
  also have "\<dots> = Some (b * 2)" using assms by (subst double_while.simps) simp
  finally show ?thesis using True by simp
next
  case False
  then show ?thesis by (subst double_while.simps) simp
qed

lemma fold_tempo:
  assumes "150 < m" "m < 2000"
  shows "double_while (halve_while (60000 / m)) = Some (folded_bpm m)"
    and "50 \<le> folded_bpm m \<and> folded_bpm m \<le> 200"
proof -
  let ?b = "60000 / m"
  have pos: "0 < m" using assms by simp
  have lo: "30 < ?b" using assms pos by (simp add: less_divide_eq)
  have hi: "?b < 400" using assms pos by (simp add: divide_less_eq)
  have h: "halve_while ?b = (if 200 < ?b then ?b / 2 else ?b)"
    using lo hi by (rule halve_while_once)
  show "double_while (halve_while (60000 / m)) = Some (folded_bpm m)"
  proof (cases "200 < ?b")
    case True
    then have "halve_while ?b = ?b / 2" using h by simp
    moreover have "double_while (?b / 2) = Some (?b / 2)"
      using True hi by (subst double_while.simps) simp
    ultimately show ?thesis using True by (simp add: folded_bpm_def Let_def)
  next
    case False
    then have "halve_while ?b = ?b" using h by simp
    moreover have "double_while ?b = Some (if ?b < 50 then ?b * 2 else ?b)"
      using lo False by (intro double_while_once) simp_all
    ultimately show ?thesis using False by (simp add: folded_bpm_def Let_def)
  qed
  show "50 \<le> folded_bpm m \<and> folded_bpm m \<le> 200"
    using lo hi by (simp add: folded_bpm_def Let_def)
qed

lemma estimate_tempo_from_ioi_cases:
  "(length onsets_ms < 4 \<or> length (ioi_intervals onsets_ms) < 3 \<longrightarrow>
      estimate_tempo_from_ioi onsets_ms = Some 0)
   \<and> (4 \<le> length onsets_ms \<and> 3 \<le> length (ioi_intervals onsets_ms) \<longrightarrow>
        estimate_tempo_from_ioi onsets_ms
          = Some (folded_bpm (np_median (ioi_intervals onsets_ms)))
        \<and> 50 \<le> folded_bpm (np_median (ioi_intervals onsets_ms))
        \<and> folded_bpm (np_median (ioi_intervals onsets_ms)) \<le> 200)"
proof (intro conjI impI)
  assume "length onsets_ms < 4 \<or> length (ioi_intervals onsets_ms) < 3"
  then show "estimate_tempo_from_ioi onsets_ms = Some 0"
    by (auto simp add: estimate_tempo_from_ioi_def Let_def)
next
  assume h: "4 \<le> length onsets_ms \<and> 3 \<le> length (ioi_intervals onsets_ms)"
  let ?iv = "ioi_intervals onsets_ms"
  have ne: "?iv \<noteq> []" using h by auto
  have m: "of_int 150 < np_median ?iv \<and> np_median ?iv < of_int 2000"
    using ne ioi_intervals_range by (rule np_median_between)
  then have m': "150 < np_median ?iv" "np_median ?iv < 2000" by simp_all
  have "estimate_tempo_from_ioi onsets_ms = double_while (halve_while (60000 / np_median ?iv))"
    using h m' by (simp add: estimate_tempo_from_ioi_def Let_def)
  then show "estimate_tempo_from_ioi onsets_ms = Some (folded_bpm (np_median ?iv))"
    using fold_tempo(1) [OF m'] by simp
  show "50 \<le> folded_bpm (np_median ?iv)" "folded_bpm (np_median ?iv) \<le> 200"
    using fold_tempo(2) [OF m'] by simp_all
qed

lemma estimate_tempo_from_ioi_returns:
  "\<exists>b. estimate_tempo_from_ioi onsets_ms = Some b \<and> (b = 0 \<or> (50 \<le> b \<and> b \<le> 200))"
proof (cases "length onsets_ms < 4 \<or> length (ioi_intervals onsets_ms) < 3")
  case True
  then show ?thesis using estimate_tempo_from_ioi_cases [of onsets_ms] by blast
next
  case False
  then have "4 \<le> length onsets_ms \<and> 3 \<le> length (ioi_intervals onsets_ms)" by simp
  then show ?thesis using estimate_tempo_from_ioi_cases [of onsets_ms] by blast
qed

text \<open>
  C2 (as amended). \<open>_estimate_tempo_from_ioi\<close> always returns; it keeps exactly the
  consecutive onset gaps strictly between 150 and 2000 ms, returns 0 for fewer than 4 onsets
  or fewer than 3 such gaps, and otherwise returns 60000 / median folded by one halving or
  doubling, which lies in 50..200. In \<open>detect_beats\<close>, with at least 4 onsets and a positive
  IOI estimate, the tempo becomes the IOI estimate and the confidence half of itself but at
  least 0.1 exactly when the autocorrelation tempo divided by the IOI estimate is greater
  than 1.8 or less than 0.55 (not 1/1.8); otherwise tempo and confidence stay.
\<close>

theorem C2_ioi_cross_check:
  "(\<exists>b. estimate_tempo_from_ioi onsets_ms = Some b
        \<and> (b = 0 \<or> (50 \<le> b \<and> b \<le> 200))
        \<and> (4 \<le> length onsets_ms \<and> 0 < b \<and> (1.8 < bpm0 / b \<or> bpm0 / b < 0.55) \<longrightarrow>
             detect_beats_step5b bpm0 confidence0 onsets_ms
               = Some (b, max 0.1 (confidence0 / 2)))
        \<and> (\<not> (4 \<le> length onsets_ms \<and> 0 < b \<and> (1.8 < bpm0 / b \<or> bpm0 / b < 0.55)) \<longrightarrow>
             detect_beats_step5b bpm0 confidence0 onsets_ms = Some (bpm0, confidence0)))
   \<and> ioi_intervals onsets_ms
        = filter (\<lambda>g. 150 < g \<and> g < 2000) (consecutive_gaps onsets_ms)
   \<and> (length onsets_ms < 4 \<or> length (ioi_intervals onsets_ms) < 3 \<longrightarrow>
        estimate_tempo_from_ioi onsets_ms = Some 0)
   \<and> (4 \<le> length onsets_ms \<and> 3 \<le> length (ioi_intervals onsets_ms) \<longrightarrow>
        estimate_tempo_from_ioi onsets_ms
          = Some (folded_bpm (np_median (ioi_intervals onsets_ms)))
        \<and> 50 \<le> folded_bpm (np_median (ioi_intervals onsets_ms))
        \<and> folded_bpm (np_median (ioi_intervals onsets_ms)) \<le> 200)"
proof -
  obtain b where b: "estimate_tempo_from_ioi onsets_ms = Some b"
      "b = 0 \<or> (50 \<le> b \<and> b \<le> 200)"
    using estimate_tempo_from_ioi_returns by blast
  have adopt: "4 \<le> length onsets_ms \<and> 0 < b \<and> (1.8 < bpm0 / b \<or> bpm0 / b < 0.55) \<longrightarrow>
             detect_beats_step5b bpm0 confidence0 onsets_ms
               = Some (b, max 0.1 (confidence0 / 2))"
    using b(1) by (auto simp add: detect_beats_step5b_def Let_def)
  have keep: "\<not> (4 \<le> length onsets_ms \<and> 0 < b \<and> (1.8 < bpm0 / b \<or> bpm0 / b < 0.55)) \<longrightarrow>
             detect_beats_step5b bpm0 confidence0 onsets_ms = Some (bpm0, confidence0)"
    using b(1) by (auto simp add: detect_beats_step5b_def Let_def)
  show ?thesis
    using b adopt keep ioi_intervals_filter [of onsets_ms]
      estimate_tempo_from_ioi_cases [of onsets_ms]
    by blast
qed

lemma halve_while_100: "halve_while 100 = 100"
  by (subst halve_while.simps) simp

lemma halve_while_375: "halve_while 375 = 375 / 2"
  using halve_while_once [of 375] by simp

lemma double_while_100: "double_while 100 = Some 100"
  by (subst double_while.simps) simp

lemma double_while_375_2: "double_while (375 / 2) = Some (375 / 2)"
  by (subst double_while.simps) simp

lemma estimate_tempo_from_ioi_600: "estimate_tempo_from_ioi [0, 600, 1200, 1800] = Some 100"
  by (simp add: estimate_tempo_from_ioi_def np_median_def halve_while_100 double_while_100
        Let_def)

lemma estimate_tempo_from_ioi_160: "estimate_tempo_from_ioi [0, 160, 320, 480] = Some (375 / 2)"
  by (simp add: estimate_tempo_from_ioi_def np_median_def halve_while_375 double_while_375_2
        Let_def)

theorem C2_ioi_cross_check_witness:
  "estimate_tempo_from_ioi [0, 600, 1200, 1800] = Some 100
   \<and> detect_beats_step5b 200 (4 / 5) [0, 600, 1200, 1800] = Some (100, 2 / 5)
   \<and> detect_beats_step5b 54 (1 / 10) [0, 600, 1200, 1800] = Some (100, 1 / 10)
   \<and> detect_beats_step5b 120 (4 / 5) [0, 600, 1200, 1800] = Some (120, 4 / 5)
   \<and> estimate_tempo_from_ioi [0, 100, 1200, 1800] = Some 0
   \<and> estimate_tempo_from_ioi [0, 160, 320, 480] = Some (375 / 2)"
  using C2_ioi_cross_check [of "[0, 600, 1200, 1800]" 200 "4 / 5"]
    C2_ioi_cross_check [of "[0, 600, 1200, 1800]" 54 "1 / 10"]
    C2_ioi_cross_check [of "[0, 600, 1200, 1800]" 120 "4 / 5"]
    C2_ioi_cross_check [of "[0, 100, 1200, 1800]" 120 "4 / 5"]
    C2_ioi_cross_check [of "[0, 160, 320, 480]" 120 "4 / 5"]
  by (simp add: detect_beats_step5b_def estimate_tempo_from_ioi_600 estimate_tempo_from_ioi_160)

text \<open>
  C2 as stated fails between 0.55 and 1/1.8: with onsets every 600 ms the IOI estimate is
  100 BPM; an autocorrelation tempo of 55.25 BPM gives the ratio 0.5525, which is below
  1/1.8 = 0.5555..., and step 5b keeps 55.25 BPM and the confidence.
\<close>

theorem C2_ratio_counterexample:
  "4 \<le> length [0, 600, 1200, 1800 :: int]
   \<and> estimate_tempo_from_ioi [0, 600, 1200, 1800] = Some 100
   \<and> (221 / 4) / (100 :: real) < 1 / 1.8
   \<and> detect_beats_step5b (221 / 4) (4 / 5) [0, 600, 1200, 1800] = Some (221 / 4, 4 / 5)"
  by (simp add: detect_beats_step5b_def estimate_tempo_from_ioi_600)

section \<open>Octave correction of the autocorrelation tempo\<close>

lemma set_take_drop:
  "set (take n (drop a xs)) = {xs ! i | i. a \<le> i \<and> i < a + n \<and> i < length xs}"
proof (intro set_eqI iffI)
  fix x assume "x \<in> set (take n (drop a xs))"
  then obtain k where k: "k < length (take n (drop a xs))" "x = take n (drop a xs) ! k"
    by (auto simp add: in_set_conv_nth)
  then have "k < n" "a + k < length xs" by auto
  then have "x = xs ! (a + k)" using k by simp
  then show "x \<in> {xs ! i | i. a \<le> i \<and> i < a + n \<and> i < length xs}"
    using \<open>k < n\<close> \<open>a + k < length xs\<close> by (intro CollectI exI [of _ "a + k"]) simp
next
  fix x assume "x \<in> {xs ! i | i. a \<le> i \<and> i < a + n \<and> i < length xs}"
  then obtain i where i: "x = xs ! i" "a \<le> i" "i < a + n" "i < length xs" by blast
  then have "i - a < length (take n (drop a xs))" by simp arith
  moreover have "take n (drop a xs) ! (i - a) = x" using i by simp
  ultimately show "x \<in> set (take n (drop a xs))" by (metis nth_mem)
qed

lemma np_max_window:
  assumes "0 \<le> c" "c < int (length xs)" "0 \<le> r"
  shows "np_max (py_slice xs (max 0 (c - r)) (min (int (length xs)) (c + (r + 1))))
           = Inr (window_max xs c r)"
proof -
  let ?a = "nat (max 0 (c - r))"
  let ?b = "nat (min (int (length xs)) (c + (r + 1)))"
  let ?s = "take (?b - ?a) (drop ?a xs)"
  have ab: "?a \<le> nat c" "nat c < ?b" "?b \<le> length xs" using assms by linarith+
  have idx: "{i. ?a \<le> i \<and> i < ?a + (?b - ?a) \<and> i < length xs}
               = {i. i < length xs \<and> c - r \<le> int i \<and> int i \<le> c + r}"
    using assms by auto
  have "set ?s = {xs ! i | i. ?a \<le> i \<and> i < ?a + (?b - ?a) \<and> i < length xs}"
    by (rule set_take_drop)
  also have "\<dots> = (\<lambda>i. xs ! i) ` {i. ?a \<le> i \<and> i < ?a + (?b - ?a) \<and> i < length xs}"
    by auto
  finally have set_eq: "set ?s = (\<lambda>i. xs ! i) ` {i. i < length xs \<and> c - r \<le> int i \<and> int i \<le> c + r}"
    by (simp only: idx)
  have "nat c \<in> {i. i < length xs \<and> c - r \<le> int i \<and> int i \<le> c + r}" using assms by simp
  then have "set ?s \<noteq> {}" unfolding set_eq by blast
  then obtain x rest where s: "?s = x # rest" by (cases ?s) auto
  have "np_max ?s = Inr (Max (set ?s))"
    by (simp only: s np_max_def list.case Max.set_eq_fold)
  then show ?thesis by (simp only: py_slice_def set_eq window_max_def)
qed

lemma argmax_fold_invariant:
  fixes xs :: "real list"
  assumes "k < length xs"
    and "fold (\<lambda>i (best, v). if v < xs ! i then (i, xs ! i) else (best, v))
           [1..<Suc k] (0, xs ! 0) = (best, v)"
  shows "best \<le> k \<and> v = xs ! best \<and> (\<forall>j\<le>k. xs ! j \<le> v) \<and> (\<forall>j<best. xs ! j < v)"
  using assms
proof (induction k arbitrary: best v)
  case 0
  then show ?case by auto
next
  case (Suc k)
  let ?step = "\<lambda>i (best, v). if v < xs ! i then (i, xs ! i) else (best, v)"
  obtain b0 v0 where bv: "fold ?step [1..<Suc k] (0, xs ! 0) = (b0, v0)"
    by (cases "fold ?step [1..<Suc k] (0, xs ! 0)")
  have "k < length xs" using Suc.prems(1) by simp
  then have ih: "b0 \<le> k \<and> v0 = xs ! b0 \<and> (\<forall>j\<le>k. xs ! j \<le> v0) \<and> (\<forall>j<b0. xs ! j < v0)"
    using bv by (rule Suc.IH)
  have "[1..<Suc (Suc k)] = [1..<Suc k] @ [Suc k]" by simp
  then have "fold ?step [1..<Suc (Suc k)] (0, xs ! 0)
               = ?step (Suc k) (fold ?step [1..<Suc k] (0, xs ! 0))"
    by (simp only: fold_append fold_simps comp_def id_def)
  then have unfold: "(best, v) = ?step (Suc k) (b0, v0)"
    using Suc.prems(2) bv by simp
  show ?case
  proof (cases "v0 < xs ! Suc k")
    case True
    then have eq: "best = Suc k" "v = xs ! Suc k" using unfold by simp_all
    have "\<forall>j\<le>Suc k. xs ! j \<le> xs ! Suc k"
      using ih True by (auto simp add: le_Suc_eq)
    moreover have "\<forall>j<Suc k. xs ! j < xs ! Suc k"
      using ih True by (auto simp add: less_Suc_eq_le intro: le_less_trans)
    ultimately show ?thesis using eq by blast
  next
    case False
    then have eq: "best = b0" "v = v0" using unfold by simp_all
    have "\<forall>j\<le>Suc k. xs ! j \<le> v0"
      using ih False by (auto simp add: le_Suc_eq)
    then show ?thesis using ih eq by auto
  qed
qed

lemma np_argmax_Cons:
  fixes x :: real
  shows "\<exists>k. np_argmax (x # rest) = Inr k \<and> k \<le> length rest
           \<and> (\<forall>j\<le>length rest. (x # rest) ! j \<le> (x # rest) ! k)
           \<and> (\<forall>j<k. (x # rest) ! j < (x # rest) ! k)"
proof -
  let ?xs = "x # rest"
  let ?step = "\<lambda>i (best, v). if v < ?xs ! i then (i, ?xs ! i) else (best, v)"
  obtain best v where bv: "fold ?step [1..<Suc (length rest)] (0, ?xs ! 0) = (best, v)"
    by (cases "fold ?step [1..<Suc (length rest)] (0, ?xs ! 0)")
  have "length rest < length ?xs" by simp
  then have inv: "best \<le> length rest \<and> v = ?xs ! best \<and> (\<forall>j\<le>length rest. ?xs ! j \<le> v)
                           \<and> (\<forall>j<best. ?xs ! j < v)"
    using bv by (rule argmax_fold_invariant)
  have "np_argmax ?xs = Inr (fst (fold ?step [1..<length ?xs] (0, x)))"
    by (simp only: np_argmax_def list.case)
  also have "fold ?step [1..<length ?xs] (0, x) = (best, v)"
    using bv by (simp only: length_Cons nth_Cons_0)
  finally have "np_argmax ?xs = Inr best" by simp
  then show ?thesis using inv by blast
qed

lemma np_argmax_first_max:
  fixes xs :: "real list"
  assumes "xs \<noteq> []"
  shows "\<exists>k. np_argmax xs = Inr k \<and> k < length xs \<and> (\<forall>j<length xs. xs ! j \<le> xs ! k)
           \<and> (\<forall>j<k. xs ! j < xs ! k)"
proof -
  obtain x rest where xs: "xs = x # rest" using assms by (cases xs) auto
  show ?thesis unfolding xs using np_argmax_Cons [of x rest] by (auto simp add: less_Suc_eq_le)
qed

lemma octave_check_double_lag_cases:
  assumes "0 \<le> peak_idx"
  shows "octave_check_double_lag autocorr peak_idx bpm0 peak_val =
           (if peak_idx * 2 < int (length autocorr)
               \<and> peak_val * 0.8 < window_max autocorr (peak_idx * 2) 3
               \<and> 40 \<le> bpm0 / 2 \<and> bpm0 / 2 \<le> 200
            then Inr (bpm0 / 2, window_max autocorr (peak_idx * 2) 3)
            else Inr (bpm0, peak_val))"
proof (cases "peak_idx * 2 < int (length autocorr)")
  case True
  have "np_max (py_slice autocorr (max 0 (peak_idx * 2 - 3))
                  (min (int (length autocorr)) (peak_idx * 2 + (3 + 1))))
          = Inr (window_max autocorr (peak_idx * 2) 3)"
    using assms True by (intro np_max_window) simp_all
  then have "np_max (py_slice autocorr (max 0 (peak_idx * 2 - 3))
                  (min (int (length autocorr)) (peak_idx * 2 + 4)))
          = Inr (window_max autocorr (peak_idx * 2) 3)"
    by simp
  then show ?thesis
    using True by (simp add: octave_check_double_lag_def py_bind_def Let_def)
next
  case False
  then show ?thesis by (simp add: octave_check_double_lag_def Let_def)
qed

lemma octave_check_half_lag_cases:
  assumes "0 \<le> peak_idx" "peak_idx < int (length autocorr)"
  shows "octave_check_half_lag autocorr min_lag peak_idx bpm1 peak_val =
           (if min_lag \<le> peak_idx div 2
               \<and> peak_val * 0.85 < window_max autocorr (peak_idx div 2) 2
               \<and> 40 \<le> bpm1 * 2 \<and> bpm1 * 2 \<le> 200
            then Inr (bpm1 * 2)
            else Inr bpm1)"
proof (cases "min_lag \<le> peak_idx div 2")
  case True
  have h: "0 \<le> peak_idx div 2" "peak_idx div 2 < int (length autocorr)"
    using assms by simp_all
  have "np_max (py_slice autocorr (max 0 (peak_idx div 2 - 2))
                  (min (int (length autocorr)) (peak_idx div 2 + (2 + 1))))
          = Inr (window_max autocorr (peak_idx div 2) 2)"
    using h by (intro np_max_window) simp_all
  then have "np_max (py_slice autocorr (max 0 (peak_idx div 2 - 2))
                  (min (int (length autocorr)) (peak_idx div 2 + 3)))
          = Inr (window_max autocorr (peak_idx div 2) 2)"
    by simp
  then show ?thesis
    using True by (simp add: octave_check_half_lag_def py_bind_def Let_def)
next
  case False
  then show ?thesis by (simp add: octave_check_half_lag_def Let_def)
qed

lemma tempo_lag_window_peak:
  fixes autocorr :: "real list"
  assumes lo: "1 \<le> min_lag" and lt: "min_lag < max_lag"
    and hi: "max_lag \<le> int (length autocorr) - 1"
  shows "\<exists>am. np_argmax (py_slice autocorr min_lag (max_lag + 1)) = Inr am
           \<and> min_lag \<le> int am + min_lag \<and> int am + min_lag \<le> max_lag
           \<and> (\<forall>j. min_lag \<le> j \<and> j \<le> max_lag \<longrightarrow>
                  autocorr ! nat j \<le> autocorr ! nat (int am + min_lag))
           \<and> py_slice autocorr min_lag (max_lag + 1) \<noteq> []"
proof -
  let ?a = "nat min_lag"
  let ?s = "py_slice autocorr min_lag (max_lag + 1)"
  have s: "?s = take (nat (max_lag + 1) - ?a) (drop ?a autocorr)" by (simp add: py_slice_def)
  have len: "length ?s = nat (max_lag + 1) - ?a" using lo lt hi unfolding s by simp
  have pos: "0 < length ?s" using lo lt unfolding len by linarith
  then have ne: "?s \<noteq> []" by auto
  have ale: "?a \<le> length autocorr" using lo lt hi by linarith
  have nth: "\<And>k. k < length ?s \<Longrightarrow> ?s ! k = autocorr ! (?a + k)"
    unfolding s using ale by simp
  obtain am where am: "np_argmax ?s = Inr am" "am < length ?s"
      "\<forall>j<length ?s. ?s ! j \<le> ?s ! am"
    using np_argmax_first_max [OF ne] by blast
  have rng: "int am + min_lag \<le> max_lag" using am(2) lo lt unfolding len by linarith
  have mx: "\<forall>j. min_lag \<le> j \<and> j \<le> max_lag \<longrightarrow>
                  autocorr ! nat j \<le> autocorr ! nat (int am + min_lag)"
  proof (intro allI impI)
    fix j assume j: "min_lag \<le> j \<and> j \<le> max_lag"
    let ?k = "nat (j - min_lag)"
    have k: "?k < length ?s" using j lo unfolding len by linarith
    have "?s ! ?k \<le> ?s ! am" using am(3) k by blast
    moreover have "?s ! ?k = autocorr ! (?a + ?k)" using k by (rule nth)
    moreover have "?s ! am = autocorr ! (?a + am)" using am(2) by (rule nth)
    moreover have "?a + ?k = nat j" using j lo by linarith
    moreover have "?a + am = nat (int am + min_lag)" using lo by linarith
    ultimately show "autocorr ! nat j \<le> autocorr ! nat (int am + min_lag)" by simp
  qed
  show ?thesis using am(1) rng mx ne by auto
qed

lemma tempo_min_lag_pos: "1 \<le> tempo_min_lag fps"
  by (simp add: tempo_min_lag_def)

lemma tempo_max_lag_le: "tempo_max_lag autocorr fps \<le> int (length autocorr) - 1"
  by (simp add: tempo_max_lag_def)

text \<open>
  C3 (as amended). On an envelope of at least 100 frames with a non-empty lag window,
  \<open>_estimate_tempo\<close> returns; the lag \<open>p\<close> it picks lies in the window and carries the
  largest autocorrelation value of the window. If twice the lag lies inside the array,
  the largest value within 3 samples of it exceeds 80% of the primary peak and the halved
  tempo lies in 40..200, the halved tempo and that value are adopted; if twice the lag lies
  outside, the value stays below 80% or the halved tempo leaves 40..200, they are not.
  Then the doubled tempo is adopted exactly when half the lag is at least the lower bound
  of the lag window, the largest value within 2 samples of it exceeds 85% of the (possibly
  updated) peak value and the doubled tempo lies in 40..200.
\<close>

theorem C3_octave_correction:
  assumes "99 \<le> length autocorr" and "hop_size \<noteq> 0"
    and "fps = of_int sr / of_int hop_size"
    and "min_lag = tempo_min_lag fps" and "max_lag = tempo_max_lag autocorr fps"
    and "min_lag < max_lag"
  shows "\<exists>p b1 v1 b2.
      estimate_tempo autocorr sr hop_size
        = Inr (b2, min 1 (max 0 (v1 / (autocorr ! 0 + 1 / 10000000000))))
      \<and> min_lag \<le> p \<and> p \<le> max_lag
      \<and> (\<forall>j. min_lag \<le> j \<and> j \<le> max_lag \<longrightarrow> autocorr ! nat j \<le> autocorr ! nat p)
      \<and> octave_check_double_lag autocorr p (60 * fps / of_int p) (autocorr ! nat p) = Inr (b1, v1)
      \<and> (p * 2 < int (length autocorr)
            \<and> autocorr ! nat p * 0.8 < window_max autocorr (p * 2) 3
            \<and> 40 \<le> 60 * fps / of_int p / 2 \<and> 60 * fps / of_int p / 2 \<le> 200 \<longrightarrow>
          b1 = 60 * fps / of_int p / 2 \<and> v1 = window_max autocorr (p * 2) 3)
      \<and> (int (length autocorr) \<le> p * 2
            \<or> window_max autocorr (p * 2) 3 < autocorr ! nat p * 0.8
            \<or> 60 * fps / of_int p / 2 < 40 \<or> 200 < 60 * fps / of_int p / 2 \<longrightarrow>
          b1 = 60 * fps / of_int p \<and> v1 = autocorr ! nat p)
      \<and> octave_check_half_lag autocorr min_lag p b1 v1 = Inr b2
      \<and> (min_lag \<le> p div 2 \<and> v1 * 0.85 < window_max autocorr (p div 2) 2
            \<and> 40 \<le> b1 * 2 \<and> b1 * 2 \<le> 200 \<longrightarrow> b2 = b1 * 2)
      \<and> (\<not> (min_lag \<le> p div 2 \<and> v1 * 0.85 < window_max autocorr (p div 2) 2
               \<and> 40 \<le> b1 * 2 \<and> b1 * 2 \<le> 200) \<longrightarrow> b2 = b1)"
proof -
  have lo: "1 \<le> min_lag" unfolding assms(4) by (rule tempo_min_lag_pos)
  have hi: "max_lag \<le> int (length autocorr) - 1" unfolding assms(5) by (rule tempo_max_lag_le)
  obtain am where am: "np_argmax (py_slice autocorr min_lag (max_lag + 1)) = Inr am"
      and rng: "min_lag \<le> int am + min_lag" "int am + min_lag \<le> max_lag"
      and mx: "\<forall>j. min_lag \<le> j \<and> j \<le> max_lag \<longrightarrow>
                  autocorr ! nat j \<le> autocorr ! nat (int am + min_lag)"
      and ne: "py_slice autocorr min_lag (max_lag + 1) \<noteq> []"
    using tempo_lag_window_peak [OF lo assms(6) hi] by blast
  define p where "p = int am + min_lag"
  define pv where "pv = autocorr ! nat p"
  define bpm0 where "bpm0 = 60 * fps / of_int p"
  have p0: "0 \<le> p" "p < int (length autocorr)" using lo rng hi unfolding p_def by linarith+
  have idx: "py_index autocorr p = Inr pv"
    using p0 by (simp add: py_index_def pv_def Let_def)
  define r1 where "r1 = (if p * 2 < int (length autocorr)
               \<and> pv * 0.8 < window_max autocorr (p * 2) 3
               \<and> 40 \<le> bpm0 / 2 \<and> bpm0 / 2 \<le> 200
            then (bpm0 / 2, window_max autocorr (p * 2) 3)
            else (bpm0, pv))"
  define b1 where "b1 = fst r1"
  define v1 where "v1 = snd r1"
  have blk1: "octave_check_double_lag autocorr p bpm0 pv = Inr (b1, v1)"
    unfolding octave_check_double_lag_cases [OF p0(1)] b1_def v1_def r1_def by simp
  define b2 where "b2 = (if min_lag \<le> p div 2
               \<and> v1 * 0.85 < window_max autocorr (p div 2) 2
               \<and> 40 \<le> b1 * 2 \<and> b1 * 2 \<le> 200
            then b1 * 2 else b1)"
  have blk2: "octave_check_half_lag autocorr min_lag p b1 v1 = Inr b2"
    unfolding octave_check_half_lag_cases [OF p0] b2_def by simp
  have n: "\<not> length autocorr + 1 < 100" using assms(1) by simp
  have fps: "py_truediv (of_int sr) (of_int hop_size) = Inr fps"
    using assms(2,3) by (simp add: py_truediv_def)
  have lag: "\<not> tempo_max_lag autocorr fps \<le> tempo_min_lag fps"
    using assms(4,5,6) by simp
  have ne': "length (py_slice autocorr (tempo_min_lag fps) (tempo_max_lag autocorr fps + 1)) \<noteq> 0"
    using ne assms(4,5) by simp
  have am': "np_argmax (py_slice autocorr (tempo_min_lag fps) (tempo_max_lag autocorr fps + 1))
               = Inr am"
    using am assms(4,5) by simp
  have idx': "py_index autocorr (int am + tempo_min_lag fps) = Inr pv"
    using idx unfolding p_def assms(4) .
  have blk1': "octave_check_double_lag autocorr (int am + tempo_min_lag fps)
                 (60 * fps / of_int (int am + tempo_min_lag fps)) pv = Inr (b1, v1)"
    using blk1 unfolding bpm0_def p_def assms(4) .
  have blk2': "octave_check_half_lag autocorr (tempo_min_lag fps) (int am + tempo_min_lag fps)
                 b1 v1 = Inr b2"
    using blk2 unfolding p_def assms(4) .
  have res: "estimate_tempo autocorr sr hop_size
               = Inr (b2, min 1 (max 0 (v1 / (autocorr ! 0 + 1 / 10000000000))))"
    unfolding estimate_tempo_def
    by (simp only: n fps lag ne' am' idx' blk1' blk2' py_bind_def Let_def if_False sum.case
          prod.case)
  have c1: "p * 2 < int (length autocorr)
            \<and> pv * 0.8 < window_max autocorr (p * 2) 3
            \<and> 40 \<le> bpm0 / 2 \<and> bpm0 / 2 \<le> 200 \<longrightarrow>
          b1 = bpm0 / 2 \<and> v1 = window_max autocorr (p * 2) 3"
    by (simp add: b1_def v1_def r1_def)
  have c2: "int (length autocorr) \<le> p * 2
            \<or> window_max autocorr (p * 2) 3 < pv * 0.8
            \<or> bpm0 / 2 < 40 \<or> 200 < bpm0 / 2 \<longrightarrow>
          b1 = bpm0 \<and> v1 = pv"
    by (auto simp add: b1_def v1_def r1_def)
  have c3: "min_lag \<le> p div 2 \<and> v1 * 0.85 < window_max autocorr (p div 2) 2
            \<and> 40 \<le> b1 * 2 \<and> b1 * 2 \<le> 200 \<longrightarrow> b2 = b1 * 2"
    by (simp add: b2_def)
  have c4: "\<not> (min_lag \<le> p div 2 \<and> v1 * 0.85 < window_max autocorr (p div 2) 2
               \<and> 40 \<le> b1 * 2 \<and> b1 * 2 \<le> 200) \<longrightarrow> b2 = b1"
    by (simp add: b2_def)
  have mx': "\<forall>j. min_lag \<le> j \<and> j \<le> max_lag \<longrightarrow> autocorr ! nat j \<le> autocorr ! nat p"
    using mx unfolding p_def .
  have rng': "min_lag \<le> p \<and> p \<le> max_lag" using rng unfolding p_def by simp
  note facts = res rng' mx' blk1 [unfolded pv_def bpm0_def] c1 [unfolded pv_def bpm0_def]
    c2 [unfolded pv_def bpm0_def] blk2 c3 c4
  show ?thesis
    apply (rule exI [of _ p], rule exI [of _ b1], rule exI [of _ v1], rule exI [of _ b2])
    apply (intro conjI)
             apply (rule facts(1))
            apply (rule facts(2) [THEN conjunct1])
           apply (rule facts(2) [THEN conjunct2])
          apply (rule facts(3))
         apply (rule facts(4))
        apply (rule facts(5))
       apply (rule facts(6))
      apply (rule facts(7))
     apply (rule facts(8))
    apply (rule facts(9))
    done
qed

theorem C3_octave_correction_witness:
  "estimate_tempo autocorr_slow_peak 22050 512 = Inr (11025 / 256, 1)
   \<and> estimate_tempo autocorr_fast_peak 22050 512 = Inr (11025 / 64, 1)"
proof -
  have a: "99 \<le> length autocorr_slow_peak" "99 \<le> length autocorr_fast_peak" by code_simp+
  have b: "(512 :: int) \<noteq> 0" by simp
  have c: "tempo_min_lag (of_int 22050 / of_int 512)
             < tempo_max_lag autocorr_slow_peak (of_int 22050 / of_int 512)"
    "tempo_min_lag (of_int 22050 / of_int 512)
             < tempo_max_lag autocorr_fast_peak (of_int 22050 / of_int 512)"
    by code_simp+
  have d: "estimate_tempo autocorr_slow_peak 22050 512 = Inr (11025 / 256, 1)"
    "estimate_tempo autocorr_fast_peak 22050 512 = Inr (11025 / 64, 1)"
    by code_simp+
  show ?thesis
    using C3_octave_correction [OF a(1) b refl refl refl c(1)]
      C3_octave_correction [OF a(2) b refl refl refl c(2)] d
    by simp
qed

lemma window_three_peaks: "window_max autocorr_three_peaks 10 2 = 9"
proof -
  have "np_max (py_slice autocorr_three_peaks (max 0 (10 - 2))
                  (min (int (length autocorr_three_peaks)) (10 + (2 + 1))))
          = Inr (window_max autocorr_three_peaks 10 2)"
    by (rule np_max_window) (simp_all add: autocorr_three_peaks_def)
  moreover have "np_max (py_slice autocorr_three_peaks (max 0 (10 - 2))
                  (min (int (length autocorr_three_peaks)) (10 + (2 + 1)))) = Inr 9"
    by code_simp
  ultimately show ?thesis by simp
qed

text \<open>
  C3 as stated fails where half the lag lies below the lag window. At 22050 Hz with hop
  512 the window starts at lag 12. With the primary peak 10 at lag 20 and peaks of 9 at
  lags 40 and 12, the halved tempo 64.6 is adopted with peak value 9; within 2 samples of
  half the lag (10) the largest value is 9, more than 85% of 9, and the doubled tempo 129.2
  lies in 40..200; yet the tempo stays 64.6, because lag 10 is less than 12.
\<close>

theorem C3_half_lag_guard_counterexample:
  "estimate_tempo autocorr_three_peaks 22050 512 = Inr (33075 / 512, 1)
   \<and> tempo_min_lag (22050 / 512) = 12
   \<and> octave_check_double_lag autocorr_three_peaks 20 (60 * (22050 / 512) / 20) 10
       = Inr (33075 / 512, 9)
   \<and> window_max autocorr_three_peaks (20 div 2) 2 = 9
   \<and> (9 :: real) * 0.85 \<le> 9
   \<and> (40 :: real) \<le> 33075 / 512 * 2 \<and> (33075 / 512 * 2 :: real) \<le> 200
   \<and> octave_check_half_lag autocorr_three_peaks 12 20 (33075 / 512) 9 = Inr (33075 / 512)"
proof -
  have "estimate_tempo autocorr_three_peaks 22050 512 = Inr (33075 / 512, 1)" by code_simp
  moreover have "octave_check_double_lag autocorr_three_peaks 20 (60 * (22050 / 512) / 20) 10
       = Inr (33075 / 512, 9)" by code_simp
  moreover have "octave_check_half_lag autocorr_three_peaks 12 20 (33075 / 512) 9
       = Inr (33075 / 512)" by code_simp
  moreover have "tempo_min_lag (22050 / 512) = 12" by code_simp
  moreover have "window_max autocorr_three_peaks (20 div 2) 2 = 9"
    using window_three_peaks by simp
  ultimately show ?thesis by simp
qed

section \<open>Beat snap\<close>
















end
